theory Spec2Isabelle
  imports Complex_Main "HOL-Library.AList" "HOL-Library.Multiset"
begin

section \<open>QuizMaster Live: the game session engine\<close>

text \<open>
  A shallow embedding of the server of QuizMaster Live (the Socket.IO handlers, the
  session functions \<open>startQuestion\<close>, \<open>revealAnswer\<close>, \<open>endGame\<close>, and the helpers
  \<open>sanitizeName\<close>, \<open>ensureUniqueName\<close>, \<open>rankPlayers\<close>).

  Conventions of the embedding:
  \<^item> a JavaScript number is a \<open>jsnum\<close>: \<open>NaN\<close>, the two infinities, or a finite value kept
    as an exact real (the rounding of doubles and the sign of zero are not modelled);
  \<^item> \<open>Date.now()\<close> is an input of each handler that reads the clock, an integer number
    of milliseconds; \<open>null\<close> is \<open>None\<close>;
  \<^item> a \<open>Map\<close> is an association list in insertion order (\<open>AList.update\<close> replaces
    the value of a present key in place and appends a new key; \<open>AList.delete\<close>
    removes the key);
  \<^item> a game object lives in a store of objects addressed by position; the registry
    \<open>games\<close> maps a code to an address, and a timer holds the address of its game, as the
    closure given to \<open>setTimeout\<close> holds the object;
  \<^item> the payload of an event is an object; where a handler converts a field with
    \<open>Number\<close>, \<open>String\<close> or \<open>Array.isArray\<close>, the converted value is the input of the
    model;
  \<^item> an uncaught \<open>TypeError\<close> is the result \<open>Inl TypeError\<close>;
  \<^item> what a handler emits is returned as a list of effects, in the order of the calls:
    an \<open>emit\<close> with its room or socket, or a \<open>setTimeout\<close>; the rooms themselves
    (\<open>socket.join\<close>) belong to the transport and are not modelled.
\<close>

subsection \<open>JavaScript numbers\<close>

datatype jsnum = NaN | NegInf | Fin real | PosInf

text \<open>\<open>a || b\<close> on numbers: \<open>NaN\<close> and \<open>0\<close> are falsy.\<close>

definition js_or :: "jsnum \<Rightarrow> jsnum \<Rightarrow> jsnum" where
  "js_or a b = (if a = NaN \<or> a = Fin 0 then b else a)"

text \<open>The order of the non-\<open>NaN\<close> numbers.\<close>

fun num_le :: "jsnum \<Rightarrow> jsnum \<Rightarrow> bool" where
  "num_le NaN _ = False"
| "num_le _ NaN = False"
| "num_le NegInf _ = True"
| "num_le _ PosInf = True"
| "num_le (Fin a) (Fin b) = (a \<le> b)"
| "num_le (Fin a) NegInf = False"
| "num_le PosInf (Fin b) = False"
| "num_le PosInf NegInf = False"

text \<open>\<open>a > b\<close>: false as soon as one side is \<open>NaN\<close>.\<close>

definition js_gt :: "jsnum \<Rightarrow> jsnum \<Rightarrow> bool" where
  "js_gt a b = (a \<noteq> NaN \<and> b \<noteq> NaN \<and> \<not> num_le a b)"

text \<open>\<open>a === b\<close> on numbers: \<open>NaN\<close> equals nothing.\<close>

definition js_eq :: "jsnum \<Rightarrow> jsnum \<Rightarrow> bool" where
  "js_eq a b = (a \<noteq> NaN \<and> a = b)"

definition Math_max :: "jsnum \<Rightarrow> jsnum \<Rightarrow> jsnum" where
  "Math_max a b = (if a = NaN \<or> b = NaN then NaN else if num_le a b then b else a)"

definition Math_min :: "jsnum \<Rightarrow> jsnum \<Rightarrow> jsnum" where
  "Math_min a b = (if a = NaN \<or> b = NaN then NaN else if num_le a b then a else b)"

fun js_neg :: "jsnum \<Rightarrow> jsnum" where
  "js_neg NaN = NaN"
| "js_neg NegInf = PosInf"
| "js_neg (Fin a) = Fin (- a)"
| "js_neg PosInf = NegInf"

fun js_add :: "jsnum \<Rightarrow> jsnum \<Rightarrow> jsnum" where
  "js_add (Fin a) (Fin b) = Fin (a + b)"
| "js_add NaN _ = NaN"
| "js_add _ NaN = NaN"
| "js_add PosInf NegInf = NaN"
| "js_add NegInf PosInf = NaN"
| "js_add PosInf _ = PosInf"
| "js_add _ PosInf = PosInf"
| "js_add NegInf _ = NegInf"
| "js_add _ NegInf = NegInf"

definition js_sub :: "jsnum \<Rightarrow> jsnum \<Rightarrow> jsnum" where
  "js_sub a b = js_add a (js_neg b)"

text \<open>The sign of a number that is not \<open>NaN\<close>; zero counts as positive zero.\<close>

fun negative :: "jsnum \<Rightarrow> bool" where
  "negative NegInf = True"
| "negative (Fin a) = (a < 0)"
| "negative _ = False"

definition signed_inf :: "bool \<Rightarrow> jsnum" where
  "signed_inf neg = (if neg then NegInf else PosInf)"

definition js_mul :: "jsnum \<Rightarrow> jsnum \<Rightarrow> jsnum" where
  "js_mul a b =
     (case (a, b) of
        (NaN, _) \<Rightarrow> NaN
      | (_, NaN) \<Rightarrow> NaN
      | (Fin x, Fin y) \<Rightarrow> Fin (x * y)
      | _ \<Rightarrow> if a = Fin 0 \<or> b = Fin 0 then NaN else signed_inf (negative a \<noteq> negative b))"

definition js_div :: "jsnum \<Rightarrow> jsnum \<Rightarrow> jsnum" where
  "js_div a b =
     (case (a, b) of
        (NaN, _) \<Rightarrow> NaN
      | (_, NaN) \<Rightarrow> NaN
      | (Fin x, Fin y) \<Rightarrow>
          if y \<noteq> 0 then Fin (x / y) else if x = 0 then NaN else signed_inf (x < 0)
      | (Fin x, _) \<Rightarrow> Fin 0
      | (_, Fin y) \<Rightarrow> signed_inf (negative a \<noteq> negative b)
      | _ \<Rightarrow> NaN)"

text \<open>\<open>Math.round\<close>: the nearest integer, a tie going up.\<close>

fun Math_round :: "jsnum \<Rightarrow> jsnum" where
  "Math_round (Fin a) = Fin (of_int \<lfloor>a + 1 / 2\<rfloor>)"
| "Math_round a = a"

text \<open>A clock reading or \<open>null\<close> used as a number: \<open>null\<close> converts to \<open>0\<close>.\<close>

fun ms :: "int option \<Rightarrow> jsnum" where
  "ms None = Fin 0"
| "ms (Some t) = Fin (of_int t)"

subsection \<open>Strings\<close>

text \<open>
  A string is a list of characters, one per code unit. Of the white space of
  \<open>trim\<close> and of \<open>\s\<close>, and of the letters \<open>toLowerCase\<close> changes, the ASCII ones are modelled.
\<close>

definition is_space :: "char \<Rightarrow> bool" where
  "is_space c = (c \<in> set [CHR 0x09, CHR 0x0A, CHR 0x0B, CHR 0x0C, CHR 0x0D, CHR 0x20])"

definition trim :: "string \<Rightarrow> string" where
  "trim s = rev (dropWhile is_space (rev (dropWhile is_space s)))"

text \<open>\<open>s.replace(/\s+/g, ' ')\<close>: every run of white space becomes one space.\<close>

function collapse_spaces :: "string \<Rightarrow> string" where
  "collapse_spaces [] = []"
| "collapse_spaces (c # cs) =
     (if is_space c then CHR 0x20 # collapse_spaces (dropWhile is_space cs)
      else c # collapse_spaces cs)"
  by pat_completeness auto
termination
  by (relation "measure length") (auto simp: length_dropWhile_le less_Suc_eq_le)

definition lower_char :: "char \<Rightarrow> char" where
  "lower_char c =
     (let n = (of_char c :: nat) in if 65 \<le> n \<and> n \<le> 90 then char_of (n + 32) else c)"

definition toLowerCase :: "string \<Rightarrow> string" where
  "toLowerCase s = map lower_char s"

text \<open>The decimal digits of a natural number, as a template literal prints it.\<close>

definition digit :: "nat \<Rightarrow> char" where
  "digit d = ''0123456789'' ! d"

function dec :: "nat \<Rightarrow> string" where
  "dec n = (if n < 10 then [digit n] else dec (n div 10) @ [digit (n mod 10)])"
  by pat_completeness auto
termination
  by (relation "measure id") auto

declare dec.simps [simp del]

subsection \<open>The data model\<close>

datatype gstate = Lobby | Question | Reveal | Ended

record question =
  prompt :: string
  options :: "string list"
  correctIndex :: jsnum
  timeLimitSec :: jsnum

record player =
  pid :: string
  name :: string
  score :: jsnum
  answered :: bool
  answerIndex :: "jsnum option"
  answerTime :: "int option"

record game =
  code :: string
  hostId :: string
  players :: "(string \<times> player) list"
  questions :: "question list"
  state :: gstate
  currentIndex :: nat
  questionStart :: "int option"
  answersSubmitted :: nat

text \<open>
  The objects \<open>{id, name, score}\<close> of \<open>currentPlayersArray\<close>; \<open>rankPlayers\<close> adds the
  property \<open>rank\<close>.
\<close>

record entry =
  eid :: string
  ename :: string
  escore :: jsnum
  rank :: "nat option"

text \<open>
  What a handler does to the outside: an \<open>emit\<close> to a room (\<open>io.to(code)\<close>) or to one
  socket (\<open>io.to(id)\<close>, \<open>socket.emit\<close>) with the event's name and payload, or a
  \<open>setTimeout\<close> with the index its callback captured and its delay in milliseconds.
\<close>

datatype target = Room string | Sock string

datatype payload =
    Message string
  | LobbyP "entry list" nat string
  | QuestionP nat nat string "string list" jsnum string
  | RevealP nat nat jsnum "jsnum list" "entry list"
  | RevealMeP bool jsnum "nat option" string
  | GameOverP "entry list"
  | CreatedP string
  | JoinedP string string
  | ProgressP nat nat
  | LockedP jsnum
  | NoPayload

datatype effect = Emit target string payload | SetTimeout nat jsnum

datatype error = TypeError

type_synonym 'a result = "error + 'a"

record socket =
  sockid :: string
  isHost :: bool

text \<open>
  The process: the game objects ever created (\<open>store\<close>, addressed by position) and the
  registry \<open>games\<close> from codes to addresses.
\<close>

record world =
  store :: "game list"
  games :: "(string \<times> nat) list"

definition init :: world where
  "init = \<lparr>store = [], games = []\<rparr>"

subsection \<open>Names\<close>

text \<open>
  \<open>sanitizeName\<close>; the argument is \<open>None\<close> when the name given is not a string.
\<close>

definition sanitizeName :: "string option \<Rightarrow> string" where
  "sanitizeName nm =
     (case nm of
        None \<Rightarrow> ''Player''
      | Some s \<Rightarrow>
          if s = [] then ''Player''
          else let n = take 24 (trim s) in
            if n = [] then ''Player'' else collapse_spaces n)"

text \<open>The template literal \<open>`${base} #${i}`\<close>.\<close>

definition suffixed :: "string \<Rightarrow> nat \<Rightarrow> string" where
  "suffixed base i = base @ '' #'' @ dec i"

text \<open>
  The loop of \<open>ensureUniqueName\<close>: \<open>names\<close> holds the lower-cased names of the
  roster, \<open>i\<close> is the next suffix to try.
\<close>

function uniq_loop :: "string list \<Rightarrow> string \<Rightarrow> string \<Rightarrow> nat \<Rightarrow> string" where
  "uniq_loop names base candidate i =
     (if toLowerCase candidate \<in> set names
      then uniq_loop names base (suffixed base i) (Suc i)
      else candidate)"
  by pat_completeness auto

definition ensureUniqueName :: "game \<Rightarrow> string option \<Rightarrow> string" where
  "ensureUniqueName g desired =
     (let names = map (\<lambda>(k, p). toLowerCase (name p)) (players g);
          base = sanitizeName desired
      in uniq_loop names base base 2)"

subsection \<open>Ranking\<close>

definition currentPlayersArray :: "game \<Rightarrow> entry list" where
  "currentPlayersArray g =
     map (\<lambda>(k, p). \<lparr>eid = pid p, ename = name p, escore = score p, rank = None\<rparr>) (players g)"

text \<open>
  \<open>Array.prototype.sort\<close> with a comparator is stable; with a consistent comparator its
  result is the one stable order, which insertion computes. An element moves behind
  another only when the comparator's value is positive (\<open>NaN\<close> counts as \<open>0\<close>).
\<close>

fun insert_by :: "('a \<Rightarrow> 'a \<Rightarrow> jsnum) \<Rightarrow> 'a \<Rightarrow> 'a list \<Rightarrow> 'a list" where
  "insert_by cmp x [] = [x]"
| "insert_by cmp x (y # ys) =
     (if js_gt (cmp x y) (Fin 0) then y # insert_by cmp x ys else x # y # ys)"

definition js_sort :: "('a \<Rightarrow> 'a \<Rightarrow> jsnum) \<Rightarrow> 'a list \<Rightarrow> 'a list" where
  "js_sort cmp xs = foldr (insert_by cmp) xs []"

text \<open>The comparator \<open>(a,b) => b.score - a.score\<close>.\<close>

definition by_score :: "entry \<Rightarrow> entry \<Rightarrow> jsnum" where
  "by_score a b = js_sub (escore b) (escore a)"

definition rankPlayers :: "game \<Rightarrow> entry list" where
  "rankPlayers g =
     (let arr = js_sort by_score (currentPlayersArray g)
      in map (\<lambda>(idx, p). p\<lparr>rank := Some (idx + 1)\<rparr>) (enumerate 0 arr))"

definition buildLeaderboard :: "game \<Rightarrow> nat \<Rightarrow> entry list" where
  "buildLeaderboard g topN = take topN (rankPlayers g)"

subsection \<open>Session functions\<close>

definition broadcastLobby :: "game \<Rightarrow> effect list" where
  "broadcastLobby g =
     Emit (Room (code g)) ''lobby:update''
       (LobbyP (currentPlayersArray g) (length (players g)) (code g))
     # (if hostId g \<noteq> []
        then [Emit (Sock (hostId g)) ''host:lobby:update''
                (LobbyP (currentPlayersArray g) (length (players g)) (code g))]
        else [])"

text \<open>
  \<open>startQuestion\<close>, with the clock reading \<open>now\<close>. Reading a property of
  \<open>game.questions[idx]\<close> when there is no such question is a \<open>TypeError\<close>.
\<close>

definition reset_answer :: "player \<Rightarrow> player" where
  "reset_answer p = p\<lparr>answered := False, answerIndex := None, answerTime := None\<rparr>"

definition startQuestion :: "int \<Rightarrow> game \<Rightarrow> (game \<times> effect list) result" where
  "startQuestion now g =
     (let idx = currentIndex g in
      if idx < length (questions g) then
        let q = questions g ! idx;
            g' = g\<lparr>state := Question, questionStart := Some now, answersSubmitted := 0,
                   players := map (\<lambda>(k, p). (k, reset_answer p)) (players g)\<rparr>;
            payload = QuestionP (idx + 1) (length (questions g)) (prompt q) (options q)
                        (timeLimitSec q) (code g)
        in Inr (g', [Emit (Room (code g)) ''question:show'' payload,
                     Emit (Sock (hostId g)) ''host:question:show'' payload,
                     SetTimeout idx (js_add (js_mul (timeLimitSec q) (Fin 1000)) (Fin 50))])
      else Inl TypeError)"

text \<open>\<open>p.answerIndex === q.correctIndex\<close>: \<open>null\<close> equals no number.\<close>

definition strict_eq :: "jsnum option \<Rightarrow> jsnum \<Rightarrow> bool" where
  "strict_eq a b = (case a of None \<Rightarrow> False | Some x \<Rightarrow> js_eq x b)"

text \<open>The body of the scoring loop of \<open>revealAnswer\<close>, for one player.\<close>

definition score_player :: "question \<Rightarrow> int option \<Rightarrow> player \<Rightarrow> player" where
  "score_player q start p =
     (if answered p \<and> strict_eq (answerIndex p) (correctIndex q) then
        let elapsed = Math_max (Fin 0) (js_div (js_sub (ms (answerTime p)) (ms start)) (Fin 1000));
            rem = Math_max (Fin 0) (js_sub (timeLimitSec q) elapsed);
            speedBonus = Math_round (js_mul (Fin 1000) (js_div rem (timeLimitSec q)));
            base = Fin 500
        in p\<lparr>score := js_add (score p) (js_add base speedBonus)\<rparr>
      else p)"

text \<open>
  \<open>counts[k]++\<close>. A number is an array index when it is a non-negative integer; any other
  number names an ordinary property, and the elements stay as they are. Beyond the length
  the array grows; the new places read \<open>NaN\<close> (a hole, or \<open>undefined + 1\<close>).
\<close>

definition array_index :: "jsnum \<Rightarrow> nat option" where
  "array_index k =
     (case k of Fin r \<Rightarrow> if 0 \<le> r \<and> of_int \<lfloor>r\<rfloor> = r then Some (nat \<lfloor>r\<rfloor>) else None
      | _ \<Rightarrow> None)"

definition increment :: "jsnum list \<Rightarrow> jsnum \<Rightarrow> jsnum list" where
  "increment counts k =
     (case array_index k of
        None \<Rightarrow> counts
      | Some i \<Rightarrow>
          if i < length counts then counts[i := js_add (counts ! i) (Fin 1)]
          else counts @ replicate (i - length counts) NaN @ [NaN])"

definition tally :: "jsnum list \<Rightarrow> player \<Rightarrow> jsnum list" where
  "tally counts p = (case answerIndex p of None \<Rightarrow> counts | Some k \<Rightarrow> increment counts k)"

definition reveal_me :: "question \<Rightarrow> entry list \<Rightarrow> player \<Rightarrow> effect" where
  "reveal_me q ranked p =
     (let me = map_of (rev (map (\<lambda>r. (eid r, r)) ranked)) (pid p)
      in Emit (Sock (pid p)) ''question:reveal:me''
           (RevealMeP (strict_eq (answerIndex p) (correctIndex q))
              (case me of None \<Rightarrow> score p | Some r \<Rightarrow> escore r)
              (case me of None \<Rightarrow> None | Some r \<Rightarrow> rank r)
              (if answered p \<and> strict_eq (answerIndex p) (correctIndex q)
               then ''yes'' else ''no'')))"

definition revealAnswer :: "game \<Rightarrow> (game \<times> effect list) result" where
  "revealAnswer g =
     (let idx = currentIndex g in
      if idx < length (questions g) then
        let q = questions g ! idx;
            start = questionStart g;
            g' = g\<lparr>state := Reveal,
                   players := map (\<lambda>(k, p). (k, score_player q start p)) (players g)\<rparr>;
            counts = foldl tally [Fin 0, Fin 0, Fin 0, Fin 0] (map snd (players g'));
            leaderboard = buildLeaderboard g' 10;
            ranked = rankPlayers g';
            reveal = RevealP (idx + 1) (length (questions g)) (correctIndex q) counts leaderboard
        in Inr (g', [Emit (Room (code g)) ''question:reveal'' reveal]
                    @ map (\<lambda>(k, p). reveal_me q ranked p) (players g')
                    @ [Emit (Sock (hostId g)) ''host:question:reveal'' reveal])
      else Inl TypeError)"

definition endGame :: "game \<Rightarrow> game \<times> effect list" where
  "endGame g =
     (let g' = g\<lparr>state := Ended\<rparr>;
          leaderboard = take 20 (rankPlayers g')
      in (g', [Emit (Room (code g)) ''game:over'' (GameOverP leaderboard),
               Emit (Sock (hostId g)) ''host:game:over'' (GameOverP leaderboard)]))"

subsection \<open>The handlers\<close>

text \<open>
  \<open>games.get(code)\<close> followed by the read of the object found.
\<close>

definition lookup :: "world \<Rightarrow> string \<Rightarrow> (nat \<times> game) option" where
  "lookup w c =
     (case map_of (games w) c of
        None \<Rightarrow> None
      | Some a \<Rightarrow> if a < length (store w) then Some (a, store w ! a) else None)"

text \<open>The object at address \<open>a\<close> after a session function has worked on it.\<close>

definition commit :: "world \<Rightarrow> nat \<Rightarrow> (game \<times> effect list) result \<Rightarrow> (world \<times> effect list) result" where
  "commit w a r =
     (case r of
        Inl e \<Rightarrow> Inl e
      | Inr (g, out) \<Rightarrow> Inr (w\<lparr>store := (store w)[a := g]\<rparr>, out))"

definition not_authorized :: "socket \<Rightarrow> effect" where
  "not_authorized sock =
     Emit (Sock (sockid sock)) ''host:error'' (Message ''Not authorized (HOST_KEY required).'')"

text \<open>\<open>host:createGame\<close>; \<open>pin\<close> is what \<open>makePIN()\<close> returned.\<close>

definition host_createGame :: "socket \<Rightarrow> string \<Rightarrow> world \<Rightarrow> (world \<times> effect list) result" where
  "host_createGame sock pin w =
     (if \<not> isHost sock then Inr (w, [not_authorized sock])
      else
        let game = \<lparr>code = pin, hostId = sockid sock, players = [], questions = [],
                     state = Lobby, currentIndex = 0, questionStart = None,
                     answersSubmitted = 0\<rparr>
        in Inr (w\<lparr>store := store w @ [game],
                   games := AList.update pin (length (store w)) (games w)\<rparr>,
                [Emit (Sock (sockid sock)) ''host:gameCreated'' (CreatedP pin)]))"

text \<open>
  An entry of the \<open>questions\<close> payload of \<open>host:startGame\<close>, as the conversions
  of the handler see it: \<open>Nullish\<close> for \<open>null\<close> or \<open>undefined\<close>, whose properties cannot
  be read; otherwise \<open>String(q.prompt || '')\<close>, the strings \<open>String(o)\<close> of
  \<open>q.options\<close> when that is an array, \<open>Number(q.correctIndex)\<close> and
  \<open>Number(q.timeLimitSec)\<close>.
\<close>

datatype raw_question = Nullish | Entry string "string list option" jsnum jsnum

definition sanitizeQuestion :: "raw_question \<Rightarrow> question result" where
  "sanitizeQuestion q =
     (case q of
        Nullish \<Rightarrow> Inl TypeError
      | Entry p opts ci tls \<Rightarrow>
          Inr \<lparr>prompt = take 300 p,
               options = (case opts of
                            Some os \<Rightarrow> map (take 120) (take 4 os)
                          | None \<Rightarrow> [''A'', ''B'', ''C'', ''D'']),
               correctIndex = Math_min (Fin 3) (Math_max (Fin 0) (js_or ci (Fin 0))),
               timeLimitSec = Math_min (Fin 120) (Math_max (Fin 5) (js_or tls (Fin 20)))\<rparr>)"

fun sanitizeQuestions :: "raw_question list \<Rightarrow> question list result" where
  "sanitizeQuestions [] = Inr []"
| "sanitizeQuestions (q # qs) =
     (case sanitizeQuestion q of
        Inl e \<Rightarrow> Inl e
      | Inr q' \<Rightarrow> (case sanitizeQuestions qs of Inl e \<Rightarrow> Inl e | Inr qs' \<Rightarrow> Inr (q' # qs')))"

text \<open>
  \<open>host:startGame\<close> from the line \<open>// sanitize questions\<close> on; \<open>raw\<close> is \<open>None\<close>
  when \<open>questions\<close> is not an array.
\<close>

definition startGame :: "raw_question list option \<Rightarrow> int \<Rightarrow> game \<Rightarrow> (game \<times> effect list) result" where
  "startGame raw now game =
     (let qs = (case raw of Some l \<Rightarrow> l | None \<Rightarrow> [])
      in case sanitizeQuestions qs of
           Inl e \<Rightarrow> Inl e
         | Inr qs' \<Rightarrow>
             let g1 = game\<lparr>questions := qs'\<rparr>
             in if length (questions g1) = 0 then Inr (g1, [])
                else startQuestion now (g1\<lparr>state := Question, currentIndex := 0\<rparr>))"

definition host_startGame ::
  "socket \<Rightarrow> string \<Rightarrow> raw_question list option \<Rightarrow> int \<Rightarrow> world \<Rightarrow> (world \<times> effect list) result" where
  "host_startGame sock c raw now w =
     (if \<not> isHost sock then Inr (w, [not_authorized sock])
      else case lookup w c of
             None \<Rightarrow> Inr (w, [])
           | Some (a, game) \<Rightarrow>
               if hostId game \<noteq> sockid sock then Inr (w, [])
               else commit w a (startGame raw now game))"

text \<open>\<open>host:next\<close> from the line \<open>// wait till reveal\<close> on.\<close>

definition next_question :: "int \<Rightarrow> game \<Rightarrow> (game \<times> effect list) result" where
  "next_question now game =
     (if state game = Question then Inr (game, [])
      else
        let idx = currentIndex game + 1
        in if idx \<ge> length (questions game) then Inr (endGame game)
           else startQuestion now (game\<lparr>currentIndex := idx\<rparr>))"

definition host_next :: "socket \<Rightarrow> string \<Rightarrow> int \<Rightarrow> world \<Rightarrow> (world \<times> effect list) result" where
  "host_next sock c now w =
     (if \<not> isHost sock then Inr (w, [not_authorized sock])
      else case lookup w c of
             None \<Rightarrow> Inr (w, [])
           | Some (a, game) \<Rightarrow>
               if hostId game \<noteq> sockid sock then Inr (w, [])
               else commit w a (next_question now game))"

definition host_end :: "socket \<Rightarrow> string \<Rightarrow> world \<Rightarrow> (world \<times> effect list) result" where
  "host_end sock c w =
     (if \<not> isHost sock then Inr (w, [not_authorized sock])
      else case lookup w c of
             None \<Rightarrow> Inr (w, [])
           | Some (a, game) \<Rightarrow>
               if hostId game \<noteq> sockid sock then Inr (w, [])
               else commit w a (Inr (endGame game)))"

definition player_join :: "socket \<Rightarrow> string \<Rightarrow> string option \<Rightarrow> world \<Rightarrow> (world \<times> effect list) result" where
  "player_join sock c nm w =
     (case lookup w c of
        None \<Rightarrow>
          Inr (w, [Emit (Sock (sockid sock)) ''player:error''
                     (Message ''Game not found. Check the PIN.'')])
      | Some (a, game) \<Rightarrow>
          if state game \<noteq> Lobby
          then Inr (w, [Emit (Sock (sockid sock)) ''player:error''
                          (Message ''Game already started.'')])
          else
            let finalName = ensureUniqueName game nm;
                g' = game\<lparr>players :=
                       AList.update (sockid sock)
                         \<lparr>pid = sockid sock, name = finalName, score = Fin 0,
                          answered = False, answerIndex = None, answerTime = None\<rparr>
                         (players game)\<rparr>
            in commit w a
                 (Inr (g', Emit (Sock (sockid sock)) ''player:joined'' (JoinedP c finalName)
                           # broadcastLobby g')))"

text \<open>
  \<open>player:answer\<close>; \<open>index\<close> is \<open>Number(index)\<close>, and \<open>now1\<close>, \<open>now2\<close> are the two
  readings of the clock.
\<close>

definition player_answer ::
  "socket \<Rightarrow> string \<Rightarrow> jsnum \<Rightarrow> int \<Rightarrow> int \<Rightarrow> world \<Rightarrow> (world \<times> effect list) result" where
  "player_answer sock c index now1 now2 w =
     (case lookup w c of
        None \<Rightarrow> Inr (w, [])
      | Some (a, game) \<Rightarrow>
          (case map_of (players game) (sockid sock) of
             None \<Rightarrow> Inr (w, [])
           | Some player \<Rightarrow>
               if state game \<noteq> Question then Inr (w, [])
               else if \<not> currentIndex game < length (questions game) then Inl TypeError
               else
                 let q = questions game ! currentIndex game;
                     elapsed = js_div (js_sub (Fin (of_int now1)) (ms (questionStart game)))
                                 (Fin 1000)
                 in if js_gt elapsed (timeLimitSec q) then Inr (w, [])
                    else if answered player then Inr (w, [])
                    else
                      let idx = Math_max (Fin 0) (Math_min (Fin 3) (js_or index (Fin 0)));
                          player' = player\<lparr>answered := True, answerIndex := Some idx,
                                           answerTime := Some now2\<rparr>;
                          g' = game\<lparr>players := AList.update (sockid sock) player' (players game),
                                     answersSubmitted := answersSubmitted game + 1\<rparr>
                      in commit w a
                           (Inr (g', [Emit (Sock (hostId game)) ''host:answerProgress''
                                        (ProgressP (answersSubmitted g') (length (players g'))),
                                      Emit (Sock (sockid sock)) ''player:answerLocked''
                                        (LockedP idx)]))))"

definition host_join :: "socket \<Rightarrow> string \<Rightarrow> world \<Rightarrow> (world \<times> effect list) result" where
  "host_join sock c w =
     (if \<not> isHost sock then Inr (w, [not_authorized sock])
      else case lookup w c of
             None \<Rightarrow> Inr (w, [])
           | Some (a, game) \<Rightarrow>
               if hostId game \<noteq> sockid sock then Inr (w, [])
               else Inr (w, broadcastLobby game))"

text \<open>
  \<open>disconnect\<close>: the first registered game whose host is the socket is deleted;
  when there is none, the socket is removed from the first registered game that has it
  as a player.
\<close>

definition hosted_by :: "world \<Rightarrow> string \<Rightarrow> (string \<times> nat) \<Rightarrow> bool" where
  "hosted_by w i = (\<lambda>(c, a). a < length (store w) \<and> hostId (store w ! a) = i)"

definition has_player :: "world \<Rightarrow> string \<Rightarrow> (string \<times> nat) \<Rightarrow> bool" where
  "has_player w i = (\<lambda>(c, a). a < length (store w) \<and> map_of (players (store w ! a)) i \<noteq> None)"

definition disconnect :: "socket \<Rightarrow> world \<Rightarrow> (world \<times> effect list) result" where
  "disconnect sock w =
     (case find (hosted_by w (sockid sock)) (games w) of
        Some (c, a) \<Rightarrow>
          Inr (w\<lparr>games := AList.delete c (games w)\<rparr>,
               [Emit (Room c) ''game:hostDisconnected'' NoPayload])
      | None \<Rightarrow>
          (case find (has_player w (sockid sock)) (games w) of
             Some (c, a) \<Rightarrow>
               let g = store w ! a;
                   g' = g\<lparr>players := AList.delete (sockid sock) (players g)\<rparr>
               in commit w a (Inr (g', broadcastLobby g'))
           | None \<Rightarrow> Inr (w, [])))"

text \<open>
  The callback that \<open>startQuestion\<close> gives to \<open>setTimeout\<close>, for the game at address
  \<open>a\<close> and the index \<open>idx\<close> it captured.
\<close>

definition timeout :: "nat \<Rightarrow> nat \<Rightarrow> world \<Rightarrow> (world \<times> effect list) result" where
  "timeout a idx w =
     (if a < length (store w) then
        let game = store w ! a
        in if state game = Question \<and> currentIndex game = idx
           then commit w a (revealAnswer game)
           else Inr (w, [])
      else Inr (w, []))"

subsection \<open>Runs\<close>

datatype action =
    CreateGame socket string
  | StartGame socket string "raw_question list option" int
  | Next socket string int
  | End socket string
  | Join socket string "string option"
  | Answer socket string jsnum int int
  | HostJoin socket string
  | Disconnect socket
  | Timeout nat nat

fun step :: "world \<Rightarrow> action \<Rightarrow> (world \<times> effect list) result" where
  "step w (CreateGame sock pin) = host_createGame sock pin w"
| "step w (StartGame sock c raw now) = host_startGame sock c raw now w"
| "step w (Next sock c now) = host_next sock c now w"
| "step w (End sock c) = host_end sock c w"
| "step w (Join sock c nm) = player_join sock c nm w"
| "step w (Answer sock c index now1 now2) = player_answer sock c index now1 now2 w"
| "step w (HostJoin sock c) = host_join sock c w"
| "step w (Disconnect sock) = disconnect sock w"
| "step w (Timeout a idx) = timeout a idx w"

text \<open>A run stops at the first uncaught error; the effects are collected in order.\<close>

fun run :: "world \<Rightarrow> action list \<Rightarrow> (world \<times> effect list) result" where
  "run w [] = Inr (w, [])"
| "run w (x # xs) =
     (case step w x of
        Inl e \<Rightarrow> Inl e
      | Inr (w', out) \<Rightarrow>
          (case run w' xs of Inl e \<Rightarrow> Inl e | Inr (w'', out') \<Rightarrow> Inr (w'', out @ out')))"

section \<open>Predicates and examples for the statements\<close>

subsection \<open>Registries and results\<close>

text \<open>
  The registry holds a code once, and every address in it is the address of an object.
\<close>

definition wf_registry :: "world \<Rightarrow> bool" where
  "wf_registry w =
     (distinct (map fst (games w)) \<and> list_all (\<lambda>(c, a). a < length (store w)) (games w))"

text \<open>The object that \<open>host:createGame\<close> builds.\<close>

definition lobby_game :: "socket \<Rightarrow> string \<Rightarrow> game" where
  "lobby_game sock pin =
     \<lparr>code = pin, hostId = sockid sock, players = [], questions = [], state = Lobby,
      currentIndex = 0, questionStart = None, answersSubmitted = 0\<rparr>"

text \<open>
  The world a run ends in (the initial one when the run fails), what it emitted, and
  whether it ended without an error.
\<close>

definition world_of :: "(world \<times> effect list) result \<Rightarrow> world" where
  "world_of r = (case r of Inr (w, out) \<Rightarrow> w | Inl e \<Rightarrow> init)"

definition effects_of :: "(world \<times> effect list) result \<Rightarrow> effect list" where
  "effects_of r = (case r of Inr (w, out) \<Rightarrow> out | Inl e \<Rightarrow> [])"

definition succeeds :: "(world \<times> effect list) result \<Rightarrow> bool" where
  "succeeds r = (case r of Inr x \<Rightarrow> True | Inl e \<Rightarrow> False)"

subsection \<open>Sockets, questions and two short games\<close>

definition host1 :: socket where
  "host1 = \<lparr>sockid = ''h1'', isHost = True\<rparr>"

definition host2 :: socket where
  "host2 = \<lparr>sockid = ''h2'', isHost = True\<rparr>"

definition alice :: socket where
  "alice = \<lparr>sockid = ''a'', isHost = False\<rparr>"

definition bob :: socket where
  "bob = \<lparr>sockid = ''b'', isHost = False\<rparr>"


definition capital :: raw_question where
  "capital =
     Entry ''Capital of France?'' (Some [''Paris'', ''Rome'', ''Berlin'', ''Madrid''])
       (Fin 0) (Fin 10)"

definition river :: raw_question where
  "river =
     Entry ''Longest river?'' (Some [''Nile'', ''Rhine'', ''Volga'', ''Loire''])
       (Fin 0) (Fin 20)"


text \<open>
  A session with one player and two questions, started at clock reading \<open>1000\<close>, which the
  host ends before the first question has timed out.
\<close>

definition early_end :: "action list" where
  "early_end =
     [CreateGame host1 ''482913'', Join alice ''482913'' (Some ''Sam''),
      StartGame host1 ''482913'' (Some [capital, river]) 1000,
      End host1 ''482913'']"

text \<open>A session with two players that has just shown its only question.\<close>

definition one_question :: "action list" where
  "one_question =
     [CreateGame host1 ''482913'', Join alice ''482913'' (Some ''Sam''),
      Join bob ''482913'' (Some ''Sam''),
      StartGame host1 ''482913'' (Some [capital]) 1000]"

subsection \<open>Sanitized questions\<close>

text \<open>
  A number that is finite and lies between two bounds, and a question as
  \<open>host:startGame\<close> stores it.
\<close>

definition in_range :: "real \<Rightarrow> real \<Rightarrow> jsnum \<Rightarrow> bool" where
  "in_range lo hi n = (case n of Fin r \<Rightarrow> lo \<le> r \<and> r \<le> hi | _ \<Rightarrow> False)"

definition sanitized :: "question \<Rightarrow> bool" where
  "sanitized q =
     (length (prompt q) \<le> 300 \<and> length (options q) \<le> 4
      \<and> list_all (\<lambda>opt. length opt \<le> 120) (options q)
      \<and> in_range 0 3 (correctIndex q) \<and> in_range 5 120 (timeLimitSec q))"

subsection \<open>Steps on one session\<close>

text \<open>
  The changes a step can make to a session object, by action; used to state what every
  step preserves.
\<close>

fun moves :: "action \<Rightarrow> game \<Rightarrow> game \<Rightarrow> bool" where
  "moves (CreateGame sock pin) g g' = False"
| "moves (StartGame sock c raw now) g g' = (\<exists>out. startGame raw now g = Inr (g', out))"
| "moves (Next sock c now) g g' = (\<exists>out. next_question now g = Inr (g', out))"
| "moves (End sock c) g g' = (g' = fst (endGame g))"
| "moves (Join sock c nm) g g' =
     (state g = Lobby \<and>
      g' = g\<lparr>players := AList.update (sockid sock)
                \<lparr>pid = sockid sock, name = ensureUniqueName g nm, score = Fin 0,
                 answered = False, answerIndex = None, answerTime = None\<rparr> (players g)\<rparr>)"
| "moves (Answer sock c index now1 now2) g g' =
     (state g = Question \<and>
      (\<exists>p idx. map_of (players g) (sockid sock) = Some p \<and> \<not> answered p \<and>
         g' = g\<lparr>players := AList.update (sockid sock)
                   (p\<lparr>answered := True, answerIndex := Some idx, answerTime := Some now2\<rparr>)
                   (players g),
                 answersSubmitted := answersSubmitted g + 1\<rparr>))"
| "moves (HostJoin sock c) g g' = False"
| "moves (Disconnect sock) g g' = (g' = g\<lparr>players := AList.delete (sockid sock) (players g)\<rparr>)"
| "moves (Timeout b idx) g g' =
     (state g = Question \<and> currentIndex g = idx \<and> (\<exists>out. revealAnswer g = Inr (g', out)))"

text \<open>The actions \<open>host:startGame\<close> and \<open>host:next\<close>.\<close>

fun is_start :: "action \<Rightarrow> bool" where
  "is_start (StartGame sock c raw now) = True"
| "is_start x = False"

fun is_next :: "action \<Rightarrow> bool" where
  "is_next (Next sock c now) = True"
| "is_next x = False"

text \<open>What players, timers and the host may still send after the early end.\<close>

definition after_end :: "action list" where
  "after_end =
     [Answer alice ''482913'' (Fin 0) 4000 4000, Join bob ''482913'' (Some ''Bo''),
      Timeout 0 0, End host1 ''482913'', Disconnect alice]"

subsection \<open>A game on two questions\<close>

text \<open>
  A session on two questions up to the reveal of the first, and the rest of the game:
  the host advances, the second question times out, the host advances again.
\<close>

definition two_questions :: "action list" where
  "two_questions =
     [CreateGame host1 ''482913'', Join alice ''482913'' (Some ''Sam''),
      StartGame host1 ''482913'' (Some [capital, river]) 1000,
      Answer alice ''482913'' (Fin 0) 3000 3000, Timeout 0 0]"

definition to_the_end :: "action list" where
  "to_the_end = [Next host1 ''482913'' 12000, Timeout 0 1, Next host1 ''482913'' 40000]"

subsection \<open>Scores\<close>




subsection \<open>Acceptance of answers\<close>



subsection \<open>Timers\<close>

text \<open>
  The early end followed by a new start two seconds after the first one, and what
  follows the first reveal of the game on two questions: the host advances and a player
  answers the second question.
\<close>

definition restart :: "action list" where
  "restart = early_end @ [StartGame host1 ''482913'' (Some [capital, river]) 3000]"

definition moving_on :: "action list" where
  "moving_on = [Next host1 ''482913'' 12000, Answer alice ''482913'' (Fin 0) 13000 13000]"

subsection \<open>Rosters\<close>




subsection \<open>Finite scores and rankings\<close>

text \<open>
  Scores that are finite numbers, their values, the entries without their ranks, and the
  key by which a descending order of the scores is an ascending one.
\<close>

definition is_fin :: "jsnum \<Rightarrow> bool" where
  "is_fin n = (case n of Fin r \<Rightarrow> True | _ \<Rightarrow> False)"

definition fin_value :: "jsnum \<Rightarrow> real" where
  "fin_value n = (case n of Fin r \<Rightarrow> r | _ \<Rightarrow> 0)"

definition finite_scores :: "game \<Rightarrow> bool" where
  "finite_scores g = list_all (\<lambda>(k, p). is_fin (score p)) (players g)"

definition unranked :: "entry \<Rightarrow> entry" where
  "unranked e = e\<lparr>rank := None\<rparr>"

definition descending :: "entry \<Rightarrow> real" where
  "descending e = - fin_value (escore e)"

text \<open>A roster with the scores 100, 300, 300, in the order of joining.\<close>

definition podium :: game where
  "podium =
     \<lparr>code = ''482913'', hostId = ''h1'',
      players =
        [(''c'', \<lparr>pid = ''c'', name = ''Cy'', score = Fin 100, answered = False,
                  answerIndex = None, answerTime = None\<rparr>),
         (''a'', \<lparr>pid = ''a'', name = ''Al'', score = Fin 300, answered = False,
                  answerIndex = None, answerTime = None\<rparr>),
         (''b'', \<lparr>pid = ''b'', name = ''Bo'', score = Fin 300, answered = False,
                  answerIndex = None, answerTime = None\<rparr>)],
      questions = [], state = Reveal, currentIndex = 0, questionStart = Some 1000,
      answersSubmitted = 0\<rparr>"

text \<open>
  A session whose scores are finite and whose questions are as \<open>host:startGame\<close> stores
  them.
\<close>

definition wf_game :: "game \<Rightarrow> bool" where
  "wf_game g = (finite_scores g \<and> list_all sanitized (questions g))"

section \<open>Termination of the name loop\<close>

text \<open>
  The suffixed candidates are pairwise different, also in lower case, so the finitely
  many names of a roster cannot hold all of them.
\<close>

definition digits :: "char set" where
  "digits = set ''0123456789''"

lemma digit_mem: "k < 10 \<Longrightarrow> digit k \<in> digits"
  unfolding digit_def digits_def by (rule nth_mem) simp

lemma digit_inj: "a < 10 \<Longrightarrow> b < 10 \<Longrightarrow> digit a = digit b \<Longrightarrow> a = b"
  unfolding digit_def
  by (subst (asm) nth_eq_iff_index_eq) simp_all

lemma dec_unfold: "dec k = (if k < 10 then [digit k] else dec (k div 10) @ [digit (k mod 10)])"
  by (subst dec.simps) simp

lemma dec_nonempty: "dec n \<noteq> []"
  by (subst dec.simps) simp

lemma dec_digits: "set (dec n) \<subseteq> digits"
proof (induction n rule: dec.induct)
  case (1 n)
  show ?case
  proof (cases "n < 10")
    case True
    then have "dec n = [digit n]" by (subst dec.simps) simp
    then show ?thesis using digit_mem[OF True] by simp
  next
    case False
    then have "dec n = dec (n div 10) @ [digit (n mod 10)]" by (subst dec.simps) simp
    moreover have "digit (n mod 10) \<in> digits" by (rule digit_mem) simp
    moreover note "1.IH"[OF False]
    ultimately show ?thesis by simp
  qed
qed

lemma dec_inj: "dec n = dec m \<Longrightarrow> n = m"
proof (induction n arbitrary: m rule: dec.induct)
  case (1 n)
  show ?case
  proof (cases "n < 10")
    case True
    show ?thesis
    proof (cases "m < 10")
      case m: True
      from "1.prems" True m have "digit n = digit m"
        by (simp add: dec_unfold[of n] dec_unfold[of m])
      with True m show ?thesis by (rule_tac digit_inj)
    next
      case m: False
      from "1.prems" True m have "[digit n] = dec (m div 10) @ [digit (m mod 10)]"
        by (simp add: dec_unfold[of n] dec_unfold[of m])
      then have "dec (m div 10) = []" by simp
      then show ?thesis using dec_nonempty by blast
    qed
  next
    case False
    show ?thesis
    proof (cases "m < 10")
      case m: True
      from "1.prems" False m have "dec (n div 10) @ [digit (n mod 10)] = [digit m]"
        by (simp add: dec_unfold[of n] dec_unfold[of m])
      then have "dec (n div 10) = []" by simp
      then show ?thesis using dec_nonempty by blast
    next
      case m: False
      from "1.prems" False m
      have "dec (n div 10) @ [digit (n mod 10)] = dec (m div 10) @ [digit (m mod 10)]"
        by (simp add: dec_unfold[of n] dec_unfold[of m])
      then have a: "dec (n div 10) = dec (m div 10)" and b: "digit (n mod 10) = digit (m mod 10)"
        by simp_all
      from "1.IH"[OF False a] have "n div 10 = m div 10" .
      moreover from b have "n mod 10 = m mod 10" by (intro digit_inj) simp_all
      ultimately show ?thesis by (metis div_mult_mod_eq)
    qed
  qed
qed

lemma lower_digit: "c \<in> digits \<Longrightarrow> lower_char c = c"
  by (auto simp: lower_char_def digits_def)

lemma lower_dec: "toLowerCase (dec n) = dec n"
  unfolding toLowerCase_def
  by (rule map_idI) (use dec_digits lower_digit in blast)

lemma suffixed_inj:
  assumes "toLowerCase (suffixed base i) = toLowerCase (suffixed base j)"
  shows "i = j"
proof -
  from assms have "toLowerCase (dec i) = toLowerCase (dec j)"
    by (simp add: suffixed_def toLowerCase_def)
  then have "dec i = dec j" by (simp only: lower_dec)
  then show ?thesis by (rule dec_inj)
qed

lemma finite_taken: "finite {j. i \<le> j \<and> toLowerCase (suffixed base j) \<in> set names}"
proof -
  have "inj (\<lambda>j. toLowerCase (suffixed base j))"
    by (rule injI) (rule suffixed_inj)
  then have "finite ((\<lambda>j. toLowerCase (suffixed base j)) -` set names)"
    by (intro finite_vimageI) simp_all
  then show ?thesis by (rule rev_finite_subset) auto
qed

lemma card_taken_step:
  "card {j. Suc i \<le> j \<and> toLowerCase (suffixed base j) \<in> set names}
     + (if toLowerCase (suffixed base i) \<in> set names then 1 else 0)
   = card {j. i \<le> j \<and> toLowerCase (suffixed base j) \<in> set names}"
proof (cases "toLowerCase (suffixed base i) \<in> set names")
  case True
  then have "{j. i \<le> j \<and> toLowerCase (suffixed base j) \<in> set names}
      = insert i {j. Suc i \<le> j \<and> toLowerCase (suffixed base j) \<in> set names}"
    by (auto simp: Suc_le_eq le_less)
  then show ?thesis using True finite_taken[of "Suc i" base names] by simp
next
  case False
  then have "{j. i \<le> j \<and> toLowerCase (suffixed base j) \<in> set names}
      = {j. Suc i \<le> j \<and> toLowerCase (suffixed base j) \<in> set names}"
    by (auto simp: Suc_le_eq le_less)
  then show ?thesis using False by simp
qed

termination uniq_loop
proof (relation "measure (\<lambda>(names, base, candidate, i).
          card {j. i \<le> j \<and> toLowerCase (suffixed base j) \<in> set names}
          + (if toLowerCase candidate \<in> set names then 1 else 0))", goal_cases)
  case 1
  show ?case by simp
next
  case (2 names base candidate i)
  then show ?case using card_taken_step[of i base names] by simp
qed

declare uniq_loop.simps [simp del]

section \<open>Facts about the handlers\<close>

subsection \<open>Steps and runs\<close>

lemma commit_eq_Inr:
  "commit w a r = Inr (w', out) \<longleftrightarrow> (\<exists>g. r = Inr (g, out) \<and> w' = w\<lparr>store := (store w)[a := g]\<rparr>)"
  by (cases r) (auto simp: commit_def)

lemma lookup_SomeD:
  "lookup w c = Some (a, g) \<Longrightarrow>
     a < length (store w) \<and> g = store w ! a \<and> map_of (games w) c = Some a"
  by (auto simp: lookup_def split: option.splits if_splits)

text \<open>
  What a step does to the world: a create adds an object and registers it, a host's
  disconnect deletes a code, and every other step leaves the world alone or replaces
  one object by what a session function makes of it (\<open>moves\<close>).
\<close>

lemma find_SomeD: "find P xs = Some x \<Longrightarrow> P x \<and> x \<in> set xs"
  by (induction xs) (auto split: if_splits)

lemma step_cases:
  assumes "step w x = Inr (w', out)"
  shows "(\<exists>sock pin. x = CreateGame sock pin \<and> isHost sock
            \<and> w' = w\<lparr>store := store w @ [lobby_game sock pin],
                      games := AList.update pin (length (store w)) (games w)\<rparr>)
       \<or> (\<exists>c. w' = w\<lparr>games := AList.delete c (games w)\<rparr>)
       \<or> w' = w
       \<or> (\<exists>b g'. b < length (store w) \<and> w' = w\<lparr>store := (store w)[b := g']\<rparr>
             \<and> moves x (store w ! b) g')"
proof (cases x)
  case (CreateGame sock pin)
  with assms show ?thesis
    by (auto simp: host_createGame_def lobby_game_def split: if_splits)
next
  case (StartGame sock c raw now)
  with assms show ?thesis
    by (auto simp: host_startGame_def commit_eq_Inr split: if_splits option.splits
        dest!: lookup_SomeD)
next
  case (Next sock c now)
  with assms show ?thesis
    by (auto simp: host_next_def commit_eq_Inr split: if_splits option.splits
        dest!: lookup_SomeD)
next
  case (End sock c)
  with assms have "w' = w \<or> (\<exists>b. b < length (store w)
      \<and> w' = w\<lparr>store := (store w)[b := fst (endGame (store w ! b))]\<rparr>)"
    by (fastforce simp: host_end_def commit_eq_Inr split: if_splits option.splits
        dest!: lookup_SomeD)
  with End show ?thesis by auto
next
  case (Join sock c nm)
  with assms show ?thesis
    by (auto simp: player_join_def commit_eq_Inr Let_def split: if_splits option.splits
        dest!: lookup_SomeD)
next
  case (Answer sock c index now1 now2)
  with assms show ?thesis
    by (fastforce simp: player_answer_def commit_eq_Inr Let_def split: if_splits option.splits
        dest!: lookup_SomeD)
next
  case (HostJoin sock c)
  with assms show ?thesis
    by (auto simp: host_join_def split: if_splits option.splits)
next
  case (Disconnect sock)
  with assms show ?thesis
    by (auto simp: disconnect_def commit_eq_Inr Let_def has_player_def
        split: if_splits option.splits dest!: find_SomeD)
next
  case (Timeout b idx)
  with assms show ?thesis
    by (auto simp: timeout_def commit_eq_Inr Let_def split: if_splits)
qed

lemma step_games:
  assumes "step w x = Inr (w', out)"
  shows "length (store w) \<le> length (store w') \<and>
       ((\<exists>sock pin. x = CreateGame sock pin \<and> isHost sock
            \<and> games w' = AList.update pin (length (store w)) (games w)
            \<and> length (store w') = Suc (length (store w)))
       \<or> (\<exists>c. games w' = AList.delete c (games w))
       \<or> games w' = games w)"
  using step_cases[OF assms] by auto

lemma step_object:
  assumes "step w x = Inr (w', out)" and "a < length (store w)"
  shows "a < length (store w') \<and>
         (store w' ! a = store w ! a \<or> moves x (store w ! a) (store w' ! a))"
  using step_cases[OF assms(1)] assms(2)
  by (elim disjE exE conjE) (auto simp: nth_append nth_list_update)

lemma step_new_object:
  assumes "step w x = Inr (w', out)" and "a < length (store w')" and "\<not> a < length (store w)"
  shows "\<exists>sock pin. store w' ! a = lobby_game sock pin"
  using step_cases[OF assms(1)] assms(2,3)
  by (elim disjE exE conjE) (auto simp: nth_append less_Suc_eq)

lemma set_update_subset: "set (AList.update k v al) \<subseteq> insert (k, v) (set al)"
  by (induction al) auto

lemma set_delete_subset: "set (AList.delete k al) \<subseteq> set al"
  by (auto simp: AList.delete_eq)

lemma step_wf_registry:
  assumes "step w x = Inr (w', out)" and "wf_registry w"
  shows "wf_registry w'"
proof -
  from assms(2) have d: "distinct (map fst (games w))"
    and v: "\<forall>(c, a) \<in> set (games w). a < length (store w)"
    by (auto simp: wf_registry_def list_all_iff)
  from step_games[OF assms(1)] have len: "length (store w) \<le> length (store w')"
    and cases: "(\<exists>sock pin. x = CreateGame sock pin \<and> isHost sock
            \<and> games w' = AList.update pin (length (store w)) (games w)
            \<and> length (store w') = Suc (length (store w)))
       \<or> (\<exists>c. games w' = AList.delete c (games w))
       \<or> games w' = games w"
    by blast+
  from cases have "distinct (map fst (games w'))"
    using d by (auto simp: distinct_update distinct_delete)
  moreover from cases have "\<forall>(c, a) \<in> set (games w'). a < length (store w')"
  proof (elim disjE exE conjE)
    fix sock pin
    assume g: "games w' = AList.update pin (length (store w)) (games w)"
      and l: "length (store w') = Suc (length (store w))"
    show ?thesis
      using v l set_update_subset[of pin "length (store w)" "games w"] unfolding g
      by fastforce
  next
    fix c assume g: "games w' = AList.delete c (games w)"
    show ?thesis using v len set_delete_subset[of c "games w"] unfolding g by fastforce
  next
    assume "games w' = games w"
    then show ?thesis using v len by fastforce
  qed
  ultimately show ?thesis by (simp add: wf_registry_def list_all_iff)
qed

lemma run_wf_registry:
  "run w xs = Inr (w', out) \<Longrightarrow> wf_registry w \<Longrightarrow> wf_registry w'"
proof (induction xs arbitrary: w out)
  case Nil
  then show ?case by simp
next
  case (Cons x xs)
  then show ?case
    by (auto split: sum.splits prod.splits dest: step_wf_registry)
qed

lemma run_object_invariant:
  assumes "run w xs = Inr (w', out)" and "a < length (store w)" and "P (store w ! a)"
    and "\<And>x g g'. x \<in> set xs \<Longrightarrow> moves x g g' \<Longrightarrow> P g \<Longrightarrow> P g'"
  shows "a < length (store w') \<and> P (store w' ! a)"
  using assms
proof (induction xs arbitrary: w out)
  case Nil
  then show ?case by simp
next
  case (Cons x xs)
  from Cons.prems(1) obtain w1 out1 out2 where
    s: "step w x = Inr (w1, out1)" and r: "run w1 xs = Inr (w', out2)"
    by (auto split: sum.splits prod.splits)
  from step_object[OF s Cons.prems(2)] have a: "a < length (store w1)"
    and m: "store w1 ! a = store w ! a \<or> moves x (store w ! a) (store w1 ! a)"
    by simp_all
  from m Cons.prems(3) Cons.prems(4)[of x "store w ! a" "store w1 ! a"]
  have p: "P (store w1 ! a)" by auto
  have step: "\<And>y g g'. y \<in> set xs \<Longrightarrow> moves y g g' \<Longrightarrow> P g \<Longrightarrow> P g'"
    using Cons.prems(4) by (meson list.set_intros(2))
  from Cons.IH[OF r a p step] show ?case by simp
qed

lemma run_all_objects:
  assumes "run w xs = Inr (w', out)" and "list_all P (store w)"
    and "\<And>sock pin. P (lobby_game sock pin)"
    and "\<And>x g g'. moves x g g' \<Longrightarrow> P g \<Longrightarrow> P g'"
  shows "list_all P (store w')"
  using assms(1,2)
proof (induction xs arbitrary: w out)
  case Nil
  then show ?case by simp
next
  case (Cons x xs)
  from Cons.prems(1) obtain w1 out1 out2 where
    s: "step w x = Inr (w1, out1)" and r: "run w1 xs = Inr (w', out2)"
    by (auto split: sum.splits prod.splits)
  have "P (store w1 ! a)" if "a < length (store w1)" for a
  proof (cases "a < length (store w)")
    case True
    with Cons.prems(2) have "P (store w ! a)" by (simp add: list_all_length)
    with step_object[OF s True] assms(4) show ?thesis by auto
  next
    case False
    from step_new_object[OF s that False] assms(3) show ?thesis by auto
  qed
  then have "list_all P (store w1)" by (simp add: list_all_length)
  with Cons.IH[OF r] show ?case .
qed


subsection \<open>Sanitizing questions\<close>

lemma clamp_min_max:
  "lo \<le> hi \<Longrightarrow> in_range lo hi (Math_min (Fin hi) (Math_max (Fin lo) (js_or n (Fin d))))"
  by (cases n) (auto simp: in_range_def Math_min_def Math_max_def js_or_def)


lemma sanitizeQuestion_sanitized:
  "sanitizeQuestion q = Inr q' \<Longrightarrow> sanitized q'"
  by (cases q)
     (auto simp: sanitizeQuestion_def sanitized_def clamp_min_max list_all_iff
           split: option.splits dest: in_set_takeD)

lemma sanitizeQuestions_ok:
  "Nullish \<notin> set l \<Longrightarrow>
     \<exists>qs. sanitizeQuestions l = Inr qs \<and> length qs = length l \<and> list_all sanitized qs"
proof (induction l)
  case Nil
  then show ?case by simp
next
  case (Cons q l)
  then obtain qs where qs: "sanitizeQuestions l = Inr qs" "length qs = length l" "list_all sanitized qs"
    by auto
  from Cons.prems obtain p opts ci tls where q: "q = Entry p opts ci tls"
    by (cases q) auto
  then obtain q' where q': "sanitizeQuestion q = Inr q'"
    by (simp add: sanitizeQuestion_def)
  with qs sanitizeQuestion_sanitized[OF q'] show ?case by simp
qed


lemma commit_Inr: "commit w a (Inr (g, out)) = Inr (w\<lparr>store := (store w)[a := g]\<rparr>, out)"
  by (simp add: commit_def)




lemma startGame_accepts:
  assumes "raw = Some l" and "l \<noteq> []" and "Nullish \<notin> set l"
  shows "\<exists>g' payload d. startGame raw now g
            = Inr (g', [Emit (Room (code g)) ''question:show'' payload,
                        Emit (Sock (hostId g)) ''host:question:show'' payload,
                        SetTimeout 0 d])
          \<and> state g' = Question \<and> currentIndex g' = 0 \<and> questionStart g' = Some now
          \<and> length (questions g') = length l \<and> list_all sanitized (questions g')"
proof -
  from sanitizeQuestions_ok[OF assms(3)] obtain qs
    where qs: "sanitizeQuestions l = Inr qs" "length qs = length l" "list_all sanitized qs"
    by blast
  with assms(2) have ne: "qs \<noteq> []" by auto
  then show ?thesis
    using qs assms(1,2) by (simp add: startGame_def startQuestion_def Let_def)
qed

subsection \<open>Session functions\<close>

lemma succeeds_eq: "succeeds r \<Longrightarrow> r = Inr (world_of r, effects_of r)"
  by (cases r) (auto simp: succeeds_def world_of_def effects_of_def)

lemma startQuestion_Inr:
  assumes "startQuestion now g = Inr (g', out)"
  shows "g' = g\<lparr>state := Question, questionStart := Some now, answersSubmitted := 0,
                 players := map (\<lambda>(k, p). (k, reset_answer p)) (players g)\<rparr>"
  using assms by (auto simp: startQuestion_def Let_def split: if_splits)

lemma next_question_cases:
  assumes "next_question now g = Inr (g', out)"
  shows "(state g = Question \<and> g' = g)
       \<or> (state g \<noteq> Question \<and> length (questions g) \<le> Suc (currentIndex g)
            \<and> g' = g\<lparr>state := Ended\<rparr>)
       \<or> (state g \<noteq> Question \<and> Suc (currentIndex g) < length (questions g)
            \<and> g' = g\<lparr>currentIndex := Suc (currentIndex g), state := Question,
                      questionStart := Some now, answersSubmitted := 0,
                      players := map (\<lambda>(k, p). (k, reset_answer p)) (players g)\<rparr>)"
  using assms
  by (auto simp: next_question_def endGame_def Let_def not_le
      split: if_splits dest!: startQuestion_Inr)

lemma revealAnswer_Inr:
  assumes "revealAnswer g = Inr (g', out)"
  shows "g' = g\<lparr>state := Reveal,
                 players := map (\<lambda>(k, p). (k, score_player (questions g ! currentIndex g)
                                                  (questionStart g) p)) (players g)\<rparr>"
  using assms by (auto simp: revealAnswer_def Let_def split: if_splits)

lemma moves_index:
  assumes "moves x g g'" and "\<not> is_start x"
  shows "currentIndex g \<le> currentIndex g'"
proof (cases x)
  case (Next sock c now)
  with assms(1) obtain out where "next_question now g = Inr (g', out)" by auto
  from next_question_cases[OF this] show ?thesis by auto
next
  case (Timeout b idx)
  with assms(1) show ?thesis by (auto dest!: revealAnswer_Inr)
qed (use assms in \<open>auto simp: endGame_def Let_def\<close>)

lemma moves_ended:
  assumes "moves x g g'" and "\<not> is_start x" and "\<not> is_next x" and "state g = Ended"
  shows "g' = g\<lparr>players := players g'\<rparr> \<and> set (players g') \<subseteq> set (players g)"
proof (cases x)
  case (End sock c)
  with assms show ?thesis by (cases g) (auto simp: endGame_def Let_def)
next
  case (Disconnect sock)
  with assms show ?thesis by (auto simp: AList.delete_eq)
qed (use assms in auto)

subsection \<open>Advance and start by the host\<close>

lemma host_next_reveal:
  assumes "isHost sock" and "lookup w c = Some (b, g)" and "hostId g = sockid sock"
    and "state g = Reveal"
  shows "\<exists>w' out. host_next sock c now w = Inr (w', out)
           \<and> (if Suc (currentIndex g) < length (questions g)
               then state (store w' ! b) = Question
                    \<and> currentIndex (store w' ! b) = Suc (currentIndex g)
               else state (store w' ! b) = Ended
                    \<and> currentIndex (store w' ! b) = currentIndex g)"
proof -
  from assms(2) have b: "b < length (store w)" by (auto dest: lookup_SomeD)
  have h: "host_next sock c now w = commit w b (next_question now g)"
    using assms by (simp add: host_next_def)
  show ?thesis
  proof (cases "Suc (currentIndex g) < length (questions g)")
    case True
    then obtain g' out where n: "next_question now g = Inr (g', out)"
      and g': "state g' = Question" "currentIndex g' = Suc (currentIndex g)"
      using assms(4) by (auto simp: next_question_def startQuestion_def Let_def)
    with h b True show ?thesis by (simp add: commit_Inr)
  next
    case False
    then have "next_question now g = Inr (endGame g)"
      using assms(4) by (simp add: next_question_def Let_def not_less)
    with h b False show ?thesis
      by (cases "endGame g") (auto simp: commit_Inr endGame_def Let_def)
  qed
qed

lemma host_startGame_resets:
  assumes "isHost sock" and "lookup w c = Some (b, g)" and "hostId g = sockid sock"
    and "l \<noteq> []" and "Nullish \<notin> set l"
  shows "\<exists>w' out. host_startGame sock c (Some l) now w = Inr (w', out)
           \<and> state (store w' ! b) = Question \<and> currentIndex (store w' ! b) = 0"
proof -
  from assms(2) have b: "b < length (store w)" by (auto dest: lookup_SomeD)
  have h: "host_startGame sock c (Some l) now w = commit w b (startGame (Some l) now g)"
    using assms by (simp add: host_startGame_def)
  from startGame_accepts[OF refl assms(4,5), of now g] obtain g' out where
    "startGame (Some l) now g = Inr (g', out)" "state g' = Question" "currentIndex g' = 0"
    by blast
  with h b show ?thesis by (simp add: commit_Inr)
qed

subsection \<open>Arithmetic of scores\<close>

lemma Math_max_Fin: "Math_max (Fin a) (Fin b) = Fin (max a b)"
  by (simp add: Math_max_def max_def)

lemma js_sub_Fin: "js_sub (Fin a) (Fin b) = Fin (a - b)"
  by (simp add: js_sub_def)

lemma js_div_Fin: "b \<noteq> 0 \<Longrightarrow> js_div (Fin a) (Fin b) = Fin (a / b)"
  by (simp add: js_div_def)

lemma js_mul_Fin: "js_mul (Fin a) (Fin b) = Fin (a * b)"
  by (simp add: js_mul_def)




subsection \<open>Elapsed time\<close>



text \<open>
  A start with an empty list during a question empties the stored list and leaves the
  state; the next answer then reads a question that is not there.
\<close>

lemma empty_start_then_answer_throws:
  "run init (one_question @ [StartGame host1 ''482913'' (Some []) 2000,
      Answer alice ''482913'' (Fin 0) 3000 3000]) = Inl TypeError"
  by code_simp

subsection \<open>The timer callback\<close>

lemma timeout_guard:
  assumes "state (store w ! a) \<noteq> Question \<or> currentIndex (store w ! a) \<noteq> idx"
  shows "timeout a idx w = Inr (w, [])"
  using assms by (auto simp: timeout_def Let_def)

lemma moves_left:
  assumes "moves x g g'" and "\<not> is_start x"
    and "idx \<le> currentIndex g" and "state g \<noteq> Question \<or> currentIndex g \<noteq> idx"
  shows "idx \<le> currentIndex g' \<and> (state g' \<noteq> Question \<or> currentIndex g' \<noteq> idx)"
proof (cases x)
  case (Next sock c now)
  with assms(1) obtain out where "next_question now g = Inr (g', out)" by auto
  from next_question_cases[OF this] assms(3,4) show ?thesis by auto
next
  case (Timeout b i)
  with assms(1) obtain out where "revealAnswer g = Inr (g', out)" by auto
  from revealAnswer_Inr[OF this] assms(3) show ?thesis by simp
qed (use assms in \<open>auto simp: endGame_def Let_def\<close>)

subsection \<open>The name loop and rosters\<close>

















subsection \<open>Sorting\<close>

lemma is_finE: "is_fin n \<Longrightarrow> (\<And>r. n = Fin r \<Longrightarrow> P) \<Longrightarrow> P"
  by (cases n) (auto simp: is_fin_def)

lemma by_score_positive:
  assumes "is_fin (escore x)" and "is_fin (escore y)"
  shows "js_gt (by_score x y) (Fin 0) \<longleftrightarrow> \<not> descending x \<le> descending y"
proof -
  from assms obtain a b where "escore x = Fin a" "escore y = Fin b"
    by (auto elim!: is_finE)
  then show ?thesis
    by (auto simp: by_score_def js_sub_def js_gt_def descending_def fin_value_def)
qed

lemma insert_by_insort:
  assumes "is_fin (escore x)" and "\<forall>y \<in> set ys. is_fin (escore y)"
  shows "insert_by by_score x ys = insort_key descending x ys"
  using assms by (induction ys) (auto simp: by_score_positive)

lemma js_sort_sort_key:
  "\<forall>x \<in> set xs. is_fin (escore x) \<Longrightarrow> js_sort by_score xs = sort_key descending xs"
proof (induction xs)
  case Nil
  then show ?case by (simp add: js_sort_def)
next
  case (Cons x xs)
  then have "js_sort by_score xs = sort_key descending xs" by simp
  moreover have "\<forall>y \<in> set (sort_key descending xs). is_fin (escore y)"
    using Cons.prems by simp
  ultimately show ?case
    using Cons.prems by (simp add: js_sort_def insert_by_insort)
qed

lemma length_insert_by: "length (insert_by cmp x ys) = Suc (length ys)"
  by (induction ys) auto

lemma length_js_sort: "length (js_sort cmp xs) = length xs"
  by (induction xs) (auto simp: js_sort_def length_insert_by)

lemma set_insert_by: "set (insert_by cmp x ys) = insert x (set ys)"
  by (induction ys) auto

lemma set_js_sort: "set (js_sort cmp xs) = set xs"
  by (induction xs) (auto simp: js_sort_def set_insert_by)

lemma currentPlayersArray_unranked: "e \<in> set (currentPlayersArray g) \<Longrightarrow> rank e = None"
  by (auto simp: currentPlayersArray_def)

lemma currentPlayersArray_finite:
  "finite_scores g \<Longrightarrow> \<forall>e \<in> set (currentPlayersArray g). is_fin (escore e)"
  by (auto simp: finite_scores_def currentPlayersArray_def list_all_iff)

lemma length_rankPlayers: "length (rankPlayers g) = length (players g)"
  by (simp add: rankPlayers_def Let_def length_js_sort currentPlayersArray_def)

lemma rank_rankPlayers: "i < length (players g) \<Longrightarrow> rank (rankPlayers g ! i) = Some (i + 1)"
  by (simp add: rankPlayers_def Let_def length_js_sort currentPlayersArray_def nth_enumerate_eq)

lemma unranked_rankPlayers:
  "map unranked (rankPlayers g) = js_sort by_score (currentPlayersArray g)"
proof (rule nth_equalityI)
  show "length (map unranked (rankPlayers g)) = length (js_sort by_score (currentPlayersArray g))"
    by (simp add: length_rankPlayers length_js_sort currentPlayersArray_def)
next
  fix i assume "i < length (map unranked (rankPlayers g))"
  then have i: "i < length (js_sort by_score (currentPlayersArray g))"
    by (simp add: length_rankPlayers length_js_sort currentPlayersArray_def)
  then have "js_sort by_score (currentPlayersArray g) ! i \<in> set (currentPlayersArray g)"
    using set_js_sort[of by_score "currentPlayersArray g"] nth_mem by blast
  then have "rank (js_sort by_score (currentPlayersArray g) ! i) = None"
    by (rule currentPlayersArray_unranked)
  then show "map unranked (rankPlayers g) ! i = js_sort by_score (currentPlayersArray g) ! i"
    using i by (simp add: rankPlayers_def Let_def unranked_def nth_enumerate_eq)
qed

lemma rankPlayers_state: "rankPlayers (g\<lparr>state := s\<rparr>) = rankPlayers g"
  by (simp add: rankPlayers_def currentPlayersArray_def)

section \<open>Reachable sessions\<close>

text \<open>
  Every session of a world that a run reaches from the initial one has finite scores and
  sanitized questions: the time limits lie in \<open>[5,120]\<close>, and a reveal adds a finite
  number to a finite score.
\<close>

lemma sanitizeQuestions_sanitized:
  "sanitizeQuestions l = Inr qs \<Longrightarrow> list_all sanitized qs"
proof (induction l arbitrary: qs)
  case Nil
  then show ?case by simp
next
  case (Cons q l)
  then show ?case
    by (auto split: sum.splits dest: sanitizeQuestion_sanitized)
qed

lemma ms_Fin: "\<exists>r. ms t = Fin r"
  by (cases t) simp_all

lemma score_player_finite:
  assumes "is_fin (score p)" and "in_range 5 120 (timeLimitSec q)"
  shows "is_fin (score (score_player q start p))"
proof -
  from assms(1) obtain s where s: "score p = Fin s" by (auto elim: is_finE)
  from assms(2) obtain T where T: "timeLimitSec q = Fin T" "T \<noteq> 0"
    by (cases "timeLimitSec q") (auto simp: in_range_def)
  obtain a b where ab: "ms (answerTime p) = Fin a" "ms start = Fin b"
    using ms_Fin by blast
  show ?thesis
    by (simp add: score_player_def Let_def s T ab Math_max_Fin js_sub_Fin js_div_Fin
          js_mul_Fin is_fin_def)
qed

lemma finite_scores_map:
  "(\<And>p. is_fin (score p) \<Longrightarrow> is_fin (score (h p))) \<Longrightarrow>
     players g' = map (\<lambda>(k, p). (k, h p)) (players g) \<Longrightarrow> finite_scores g \<Longrightarrow>
     finite_scores g'"
  by (auto simp: finite_scores_def list_all_iff)

lemma score_reset_answer: "score (reset_answer p) = score p"
  by (simp add: reset_answer_def)

lemma moves_wf_game:
  assumes "moves x g g'" and "wf_game g"
  shows "wf_game g'"
proof (cases x)
  case (CreateGame sock pin)
  with assms show ?thesis by simp
next
  case (StartGame sock c raw now)
  with assms(1) obtain out where s: "startGame raw now g = Inr (g', out)" by auto
  then obtain qs where qs: "sanitizeQuestions (case raw of Some l \<Rightarrow> l | None \<Rightarrow> []) = Inr qs"
    by (cases "sanitizeQuestions (case raw of Some l \<Rightarrow> l | None \<Rightarrow> [])")
       (auto simp: startGame_def)
  from sanitizeQuestions_sanitized[OF qs] have q: "list_all sanitized qs" .
  show ?thesis
  proof (cases "qs = []")
    case True
    with s qs have "g' = g\<lparr>questions := []\<rparr>" by (auto simp: startGame_def)
    with assms(2) show ?thesis by (simp add: wf_game_def finite_scores_def)
  next
    case False
    with s qs have "startQuestion now (g\<lparr>questions := qs, state := Question, currentIndex := 0\<rparr>)
          = Inr (g', out)"
      by (simp add: startGame_def)
    from startQuestion_Inr[OF this] q assms(2) show ?thesis
      by (auto simp: wf_game_def finite_scores_def list_all_iff score_reset_answer)
  qed
next
  case (Next sock c now)
  with assms(1) obtain out where "next_question now g = Inr (g', out)" by auto
  from next_question_cases[OF this] assms(2) show ?thesis
    by (fastforce simp: wf_game_def finite_scores_def list_all_iff score_reset_answer)
next
  case (End sock c)
  with assms show ?thesis by (auto simp: endGame_def Let_def wf_game_def finite_scores_def)
next
  case (Join sock c nm)
  with assms show ?thesis
    using set_update_subset[of "sockid sock" _ "players g"]
    by (fastforce simp: wf_game_def finite_scores_def list_all_iff is_fin_def)
next
  case (Answer sock c index now1 now2)
  with assms(1) obtain p idx where p: "map_of (players g) (sockid sock) = Some p"
    and g': "g' = g\<lparr>players := AList.update (sockid sock)
                   (p\<lparr>answered := True, answerIndex := Some idx, answerTime := Some now2\<rparr>)
                   (players g),
                 answersSubmitted := answersSubmitted g + 1\<rparr>"
    by auto
  from p have "(sockid sock, p) \<in> set (players g)" by (rule map_of_SomeD)
  with assms(2) have "is_fin (score p)" by (auto simp: wf_game_def finite_scores_def list_all_iff)
  with assms(2) show ?thesis
    using set_update_subset[of "sockid sock"
        "p\<lparr>answered := True, answerIndex := Some idx, answerTime := Some now2\<rparr>" "players g"]
    unfolding g' by (fastforce simp: wf_game_def finite_scores_def list_all_iff)
next
  case (HostJoin sock c)
  with assms show ?thesis by simp
next
  case (Disconnect sock)
  with assms show ?thesis
    by (auto simp: wf_game_def finite_scores_def list_all_iff AList.delete_eq)
next
  case (Timeout b idx)
  with assms(1) obtain out where r: "revealAnswer g = Inr (g', out)" by auto
  then have cur: "currentIndex g < length (questions g)"
    by (auto simp: revealAnswer_def Let_def split: if_splits)
  with assms(2) have "sanitized (questions g ! currentIndex g)"
    by (simp add: wf_game_def list_all_length)
  then have T: "in_range 5 120 (timeLimitSec (questions g ! currentIndex g))"
    by (simp add: sanitized_def)
  from revealAnswer_Inr[OF r] assms(2) show ?thesis
    by (auto simp: wf_game_def finite_scores_def list_all_iff intro: score_player_finite[OF _ T])
qed

lemma reachable_wf_game:
  assumes "run w0 xs = Inr (w, out)" and "list_all wf_game (store w0)"
  shows "list_all wf_game (store w)"
proof -
  have "wf_game (lobby_game sock pin)" for sock pin
    by (simp add: wf_game_def finite_scores_def lobby_game_def)
  with assms show ?thesis using moves_wf_game by (rule run_all_objects)
qed

section \<open>C1: codes of new sessions\<close>

text \<open>
  C1, as stated, fails: \<open>host:createGame\<close> stores the new session under whatever
  \<open>makePIN()\<close> returned, without a look at the registry. Here a second host draws the code
  of an active session; the create succeeds, and the registry then maps the code to the
  new session instead of the first one.
\<close>

theorem create_collision_displaces:
  "run init [CreateGame host1 ''482913'']
     = Inr (\<lparr>store = [lobby_game host1 ''482913''], games = [(''482913'', 0)]\<rparr>,
            [Emit (Sock ''h1'') ''host:gameCreated'' (CreatedP ''482913'')])
   \<and> lookup \<lparr>store = [lobby_game host1 ''482913''], games = [(''482913'', 0)]\<rparr> ''482913''
     = Some (0, lobby_game host1 ''482913'')
   \<and> host_createGame host2 ''482913''
       \<lparr>store = [lobby_game host1 ''482913''], games = [(''482913'', 0)]\<rparr>
     = Inr (\<lparr>store = [lobby_game host1 ''482913'', lobby_game host2 ''482913''],
              games = [(''482913'', 1)]\<rparr>,
            [Emit (Sock ''h2'') ''host:gameCreated'' (CreatedP ''482913'')])
   \<and> lookup \<lparr>store = [lobby_game host1 ''482913'', lobby_game host2 ''482913''],
              games = [(''482913'', 1)]\<rparr> ''482913''
     = Some (1, lobby_game host2 ''482913'')
   \<and> hostId (lobby_game host2 ''482913'') \<noteq> hostId (lobby_game host1 ''482913'')"
  by code_simp

text \<open>
  C1, amended: in every world a run has reached from a well-formed one the registry
  holds each code at most once; a create by a host-capable socket there registers the new
  lobby session under the code drawn, whatever the registry held for that code before,
  and leaves the sessions of all other codes as they were.
\<close>

theorem create_registers_code:
  assumes "wf_registry w0" and "run w0 xs = Inr (w, out)" and "isHost sock"
  shows "distinct (map fst (games w)) \<and>
         (\<exists>w'. host_createGame sock pin w
                  = Inr (w', [Emit (Sock (sockid sock)) ''host:gameCreated'' (CreatedP pin)])
              \<and> lookup w' pin = Some (length (store w), lobby_game sock pin)
              \<and> (\<forall>c. c \<noteq> pin \<longrightarrow> lookup w' c = lookup w c)
              \<and> distinct (map fst (games w')))"
proof -
  have wf: "wf_registry w"
    using assms(2,1) by (rule run_wf_registry)
  then have d: "distinct (map fst (games w))"
    and v: "\<And>c a. map_of (games w) c = Some a \<Longrightarrow> a < length (store w)"
    by (auto simp: wf_registry_def list_all_iff dest: map_of_SomeD)
  let ?w' = "w\<lparr>store := store w @ [lobby_game sock pin],
               games := AList.update pin (length (store w)) (games w)\<rparr>"
  have "host_createGame sock pin w
          = Inr (?w', [Emit (Sock (sockid sock)) ''host:gameCreated'' (CreatedP pin)])"
    using assms(3) by (simp add: host_createGame_def lobby_game_def)
  moreover have "lookup ?w' pin = Some (length (store w), lobby_game sock pin)"
    by (simp add: lookup_def update_conv')
  moreover have "\<forall>c. c \<noteq> pin \<longrightarrow> lookup ?w' c = lookup w c"
    by (auto simp: lookup_def update_conv' nth_append split: option.splits dest: v less_SucI)
  moreover have "distinct (map fst (games ?w'))"
    using d by (simp add: distinct_update)
  ultimately show ?thesis using d by blast
qed

theorem create_registers_code_witness:
  "distinct (map fst (games \<lparr>store = [lobby_game host1 ''482913''], games = [(''482913'', 0)]\<rparr>)) \<and>
   (\<exists>w'. host_createGame host2 ''771204''
            \<lparr>store = [lobby_game host1 ''482913''], games = [(''482913'', 0)]\<rparr>
          = Inr (w', [Emit (Sock (sockid host2)) ''host:gameCreated'' (CreatedP ''771204'')])
        \<and> lookup w' ''771204'' = Some (1, lobby_game host2 ''771204'')
        \<and> lookup w' ''482913''
            = lookup \<lparr>store = [lobby_game host1 ''482913''], games = [(''482913'', 0)]\<rparr> ''482913''
        \<and> distinct (map fst (games w')))"
proof -
  have a: "wf_registry init"
    by code_simp
  have b: "run init [CreateGame host1 ''482913'']
             = Inr (\<lparr>store = [lobby_game host1 ''482913''], games = [(''482913'', 0)]\<rparr>,
                    [Emit (Sock ''h1'') ''host:gameCreated'' (CreatedP ''482913'')])"
    by code_simp
  have c: "isHost host2"
    by code_simp
  have d: "''482913'' \<noteq> ''771204''"
    by simp
  from create_registers_code[OF a b c, of "''771204''"]
  obtain w' where e: "distinct (map fst (games \<lparr>store = [lobby_game host1 ''482913''], games = [(''482913'', 0)]\<rparr>))"
    and f: "host_createGame host2 ''771204''
              \<lparr>store = [lobby_game host1 ''482913''], games = [(''482913'', 0)]\<rparr>
            = Inr (w', [Emit (Sock (sockid host2)) ''host:gameCreated'' (CreatedP ''771204'')])"
    and g: "lookup w' ''771204''
              = Some (length (store \<lparr>store = [lobby_game host1 ''482913''], games = [(''482913'', 0)]\<rparr>),
                      lobby_game host2 ''771204'')"
    and h: "\<forall>c. c \<noteq> ''771204'' \<longrightarrow> lookup w' c
              = lookup \<lparr>store = [lobby_game host1 ''482913''], games = [(''482913'', 0)]\<rparr> c"
    and i: "distinct (map fst (games w'))"
    by (elim conjE exE)
  from g have g': "lookup w' ''771204'' = Some (1, lobby_game host2 ''771204'')"
    by simp
  from h[THEN spec, THEN mp, OF d] have "lookup w' ''482913''
      = lookup \<lparr>store = [lobby_game host1 ''482913''], games = [(''482913'', 0)]\<rparr> ''482913''" .
  with e f g' i show ?thesis by (intro conjI exI)
qed

section \<open>C2: the state \<open>ended\<close>\<close>

text \<open>
  C2, as stated, fails: \<open>host:startGame\<close> does not look at the state, and
  \<open>host:next\<close> only refuses in state \<open>question\<close>. After the host has ended the session
  of \<open>early_end\<close> at its first question, a start puts it back into \<open>question\<close> with a
  new start time, and an advance shows the second question.
\<close>

theorem ended_can_restart:
  "state (store (world_of (run init early_end)) ! 0) = Ended
   \<and> currentIndex (store (world_of (run init early_end)) ! 0) = 0
   \<and> state (store (world_of (run init
        (early_end @ [StartGame host1 ''482913'' (Some [capital]) 9000]))) ! 0) = Question
   \<and> questionStart (store (world_of (run init
        (early_end @ [StartGame host1 ''482913'' (Some [capital]) 9000]))) ! 0) = Some 9000
   \<and> state (store (world_of (run init (early_end @ [Next host1 ''482913'' 9000]))) ! 0)
       = Question
   \<and> currentIndex (store (world_of (run init (early_end @ [Next host1 ''482913'' 9000]))) ! 0)
       = 1"
  by code_simp

text \<open>
  C2, amended: once a session is in state \<open>ended\<close>, no run of answers, joins, timer
  callbacks, host ends, host-room joins, disconnects and creates changes its state, its
  index, its questions, its start time or its count of answers; its roster can only
  lose players. (A start is not among these actions: it restarts the session. An advance
  is left out.)
\<close>

theorem ended_stays_ended:
  assumes "run w xs = Inr (w', out)" and "a < length (store w)"
    and "state (store w ! a) = Ended"
    and "list_all (\<lambda>x. \<not> is_start x \<and> \<not> is_next x) xs"
  shows "a < length (store w') \<and> state (store w' ! a) = Ended
       \<and> currentIndex (store w' ! a) = currentIndex (store w ! a)
       \<and> questions (store w' ! a) = questions (store w ! a)
       \<and> questionStart (store w' ! a) = questionStart (store w ! a)
       \<and> answersSubmitted (store w' ! a) = answersSubmitted (store w ! a)
       \<and> set (players (store w' ! a)) \<subseteq> set (players (store w ! a))"
proof -
  let ?g0 = "store w ! a"
  let ?P = "\<lambda>g. g = ?g0\<lparr>players := players g\<rparr> \<and> set (players g) \<subseteq> set (players ?g0)"
  have init: "?P ?g0" by simp
  have step: "?P g'" if "x \<in> set xs" and "moves x g g'" and "?P g" for x g g'
  proof -
    from that(1) assms(4) have x: "\<not> is_start x" "\<not> is_next x"
      by (auto simp: list_all_iff)
    from that(3) assms(3) have "state g = Ended"
      by (metis (no_types, lifting) game.select_convs(5) game.surjective game.update_convs(3))
    from moves_ended[OF that(2) x this] that(3) show ?thesis
      by (metis (no_types, lifting) game.surjective game.update_convs(3) subset_trans)
  qed
  have "a < length (store w') \<and> ?P (store w' ! a)"
  proof (rule run_object_invariant[where P = ?P, OF assms(1,2) init])
    fix x g g'
    assume "x \<in> set xs" and "moves x g g'" and "?P g"
    then show "?P g'" by (rule step)
  qed
  then have a: "a < length (store w')" and p: "?P (store w' ! a)"
    by blast+
  from p have eq: "store w' ! a = ?g0\<lparr>players := players (store w' ! a)\<rparr>" by simp
  have "state (store w' ! a) = state ?g0" "currentIndex (store w' ! a) = currentIndex ?g0"
    "questions (store w' ! a) = questions ?g0" "questionStart (store w' ! a) = questionStart ?g0"
    "answersSubmitted (store w' ! a) = answersSubmitted ?g0"
    by (subst eq, simp)+
  with a p assms(3) show ?thesis by simp
qed


theorem ended_stays_ended_witness:
  "state (store (world_of (run init early_end)) ! 0) = Ended
   \<and> 0 < length (store (world_of (run (world_of (run init early_end)) after_end)))
   \<and> state (store (world_of (run (world_of (run init early_end)) after_end)) ! 0) = Ended
   \<and> currentIndex (store (world_of (run (world_of (run init early_end)) after_end)) ! 0)
       = currentIndex (store (world_of (run init early_end)) ! 0)
   \<and> questions (store (world_of (run (world_of (run init early_end)) after_end)) ! 0)
       = questions (store (world_of (run init early_end)) ! 0)
   \<and> questionStart (store (world_of (run (world_of (run init early_end)) after_end)) ! 0)
       = questionStart (store (world_of (run init early_end)) ! 0)
   \<and> answersSubmitted (store (world_of (run (world_of (run init early_end)) after_end)) ! 0)
       = answersSubmitted (store (world_of (run init early_end)) ! 0)
   \<and> set (players (store (world_of (run (world_of (run init early_end)) after_end)) ! 0))
       \<subseteq> set (players (store (world_of (run init early_end)) ! 0))"
proof -
  let ?W = "world_of (run init early_end)"
  have "succeeds (run ?W after_end)"
    by code_simp
  then have r: "run ?W after_end
      = Inr (world_of (run ?W after_end), effects_of (run ?W after_end))"
    by (rule succeeds_eq)
  have a: "0 < length (store ?W)"
    by code_simp
  have e: "state (store ?W ! 0) = Ended"
    by code_simp
  have n: "list_all (\<lambda>x. \<not> is_start x \<and> \<not> is_next x) after_end"
    by code_simp
  from e ended_stays_ended[OF r a e n] show ?thesis by (rule conjI)
qed

section \<open>C3: the index of the current question\<close>

text \<open>
  C3, as stated, fails twice. A second start resets the index: after the advance to the
  second question the index is \<open>1\<close>, and a start then sets it to \<open>0\<close>. And the advance
  taken at the reveal of the last question does not increase the index: the session
  ends with the index still \<open>1\<close>.
\<close>

theorem second_start_resets_index:
  "currentIndex (store (world_of (run init (two_questions @ [Next host1 ''482913'' 12000]))) ! 0)
     = 1
   \<and> state (store (world_of (run init (two_questions @ [Next host1 ''482913'' 12000]))) ! 0)
     = Question
   \<and> currentIndex (store (world_of (run init (two_questions @ [Next host1 ''482913'' 12000,
        StartGame host1 ''482913'' (Some [capital, river]) 13000]))) ! 0) = 0
   \<and> state (store (world_of (run init (two_questions @ [Next host1 ''482913'' 12000,
        Timeout 0 1]))) ! 0) = Reveal
   \<and> currentIndex (store (world_of (run init (two_questions @ [Next host1 ''482913'' 12000,
        Timeout 0 1]))) ! 0) = 1
   \<and> state (store (world_of (run init (two_questions @ to_the_end))) ! 0) = Ended
   \<and> currentIndex (store (world_of (run init (two_questions @ to_the_end))) ! 0) = 1"
  by code_simp


text \<open>
  C3, amended: over any run without a start the index of a session never decreases; an
  advance by the owning host in state \<open>reveal\<close> increases it by exactly 1 when another
  question follows, and otherwise leaves it as it is and ends the session; a start by the
  owning host with a non-empty list sets it to \<open>0\<close>, whatever the state.
\<close>

theorem index_never_decreases_without_start:
  assumes "run w xs = Inr (w', out)" and "a < length (store w)"
    and "list_all (\<lambda>x. \<not> is_start x) xs"
  shows "a < length (store w')
       \<and> currentIndex (store w ! a) \<le> currentIndex (store w' ! a)
       \<and> (\<forall>sock c now b g.
             isHost sock \<and> lookup w c = Some (b, g) \<and> hostId g = sockid sock
               \<and> state g = Reveal \<longrightarrow>
             (\<exists>w'' out''. host_next sock c now w = Inr (w'', out'')
                \<and> (if Suc (currentIndex g) < length (questions g)
                    then state (store w'' ! b) = Question
                         \<and> currentIndex (store w'' ! b) = Suc (currentIndex g)
                    else state (store w'' ! b) = Ended
                         \<and> currentIndex (store w'' ! b) = currentIndex g)))
       \<and> (\<forall>sock c l now b g.
             isHost sock \<and> lookup w c = Some (b, g) \<and> hostId g = sockid sock
               \<and> l \<noteq> [] \<and> Nullish \<notin> set l \<longrightarrow>
             (\<exists>w'' out''. host_startGame sock c (Some l) now w = Inr (w'', out'')
                \<and> state (store w'' ! b) = Question \<and> currentIndex (store w'' ! b) = 0))"
proof -
  let ?P = "\<lambda>g. currentIndex (store w ! a) \<le> currentIndex g"
  have "a < length (store w') \<and> ?P (store w' ! a)"
  proof (rule run_object_invariant[where P = ?P, OF assms(1,2)])
    show "?P (store w ! a)" by simp
  next
    fix x g g'
    assume "x \<in> set xs" and m: "moves x g g'" and p: "?P g"
    with assms(3) have "\<not> is_start x" by (auto simp: list_all_iff)
    from moves_index[OF m this] p show "?P g'" by simp
  qed
  moreover have "\<exists>w'' out''. host_next sock c now w = Inr (w'', out'')
                \<and> (if Suc (currentIndex g) < length (questions g)
                    then state (store w'' ! b) = Question
                         \<and> currentIndex (store w'' ! b) = Suc (currentIndex g)
                    else state (store w'' ! b) = Ended
                         \<and> currentIndex (store w'' ! b) = currentIndex g)"
    if "isHost sock \<and> lookup w c = Some (b, g) \<and> hostId g = sockid sock \<and> state g = Reveal"
    for sock c now b g
  proof -
    from that have "isHost sock" "lookup w c = Some (b, g)" "hostId g = sockid sock"
      "state g = Reveal"
      by blast+
    then show ?thesis by (rule host_next_reveal)
  qed
  moreover have "\<exists>w'' out''. host_startGame sock c (Some l) now w = Inr (w'', out'')
                \<and> state (store w'' ! b) = Question \<and> currentIndex (store w'' ! b) = 0"
    if "isHost sock \<and> lookup w c = Some (b, g) \<and> hostId g = sockid sock
               \<and> l \<noteq> [] \<and> Nullish \<notin> set l"
    for sock c l now b g
  proof -
    from that have "isHost sock" "lookup w c = Some (b, g)" "hostId g = sockid sock"
      "l \<noteq> []" "Nullish \<notin> set l"
      by blast+
    then show ?thesis by (rule host_startGame_resets)
  qed
  ultimately show ?thesis by blast
qed

theorem index_never_decreases_without_start_witness:
  "currentIndex (store (world_of (run init two_questions)) ! 0) = 0
   \<and> currentIndex (store (world_of (run (world_of (run init two_questions)) to_the_end)) ! 0) = 1
   \<and> currentIndex (store (world_of (run init two_questions)) ! 0)
       \<le> currentIndex (store (world_of (run (world_of (run init two_questions)) to_the_end)) ! 0)
   \<and> (\<exists>w'' out''. host_next host1 ''482913'' 12000 (world_of (run init two_questions))
                       = Inr (w'', out'')
          \<and> state (store w'' ! 0) = Question
          \<and> currentIndex (store w'' ! 0)
              = Suc (currentIndex (store (world_of (run init two_questions)) ! 0)))
   \<and> (\<exists>w'' out''. host_startGame host1 ''482913'' (Some [capital]) 12000
                        (world_of (run init two_questions)) = Inr (w'', out'')
          \<and> state (store w'' ! 0) = Question \<and> currentIndex (store w'' ! 0) = 0)"
proof -
  let ?W = "world_of (run init two_questions)"
  let ?g = "store ?W ! 0"
  have "succeeds (run ?W to_the_end)"
    by code_simp
  then have r: "run ?W to_the_end
      = Inr (world_of (run ?W to_the_end), effects_of (run ?W to_the_end))"
    by (rule succeeds_eq)
  have a: "0 < length (store ?W)"
    by code_simp
  have n: "list_all (\<lambda>x. \<not> is_start x) to_the_end"
    by code_simp
  have i0: "currentIndex ?g = 0"
    by code_simp
  have i1: "currentIndex (store (world_of (run ?W to_the_end)) ! 0) = 1"
    by code_simp
  have h: "isHost host1 \<and> lookup ?W ''482913'' = Some (0, ?g) \<and> hostId ?g = sockid host1
           \<and> state ?g = Reveal"
    by code_simp
  have more: "Suc (currentIndex ?g) < length (questions ?g)"
    by code_simp
  have s: "isHost host1 \<and> lookup ?W ''482913'' = Some (0, ?g) \<and> hostId ?g = sockid host1
           \<and> [capital] \<noteq> [] \<and> Nullish \<notin> set [capital]"
    by code_simp
  note t = index_never_decreases_without_start[OF r a n]
  from t have le: "currentIndex ?g \<le> currentIndex (store (world_of (run ?W to_the_end)) ! 0)"
    by (elim conjE)
  from t have "\<forall>sock c now b g.
             isHost sock \<and> lookup ?W c = Some (b, g) \<and> hostId g = sockid sock
               \<and> state g = Reveal \<longrightarrow>
             (\<exists>w'' out''. host_next sock c now ?W = Inr (w'', out'')
                \<and> (if Suc (currentIndex g) < length (questions g)
                    then state (store w'' ! b) = Question
                         \<and> currentIndex (store w'' ! b) = Suc (currentIndex g)
                    else state (store w'' ! b) = Ended
                         \<and> currentIndex (store w'' ! b) = currentIndex g))"
    by (elim conjE)
  from this[THEN spec, THEN spec, THEN spec, THEN spec, THEN spec, THEN mp, OF h, of 12000] more
  have nx: "\<exists>w'' out''. host_next host1 ''482913'' 12000 ?W = Inr (w'', out'')
          \<and> state (store w'' ! 0) = Question
          \<and> currentIndex (store w'' ! 0) = Suc (currentIndex ?g)"
    by (simp only: if_True)
  from t have "\<forall>sock c l now b g.
             isHost sock \<and> lookup ?W c = Some (b, g) \<and> hostId g = sockid sock
               \<and> l \<noteq> [] \<and> Nullish \<notin> set l \<longrightarrow>
             (\<exists>w'' out''. host_startGame sock c (Some l) now ?W = Inr (w'', out'')
                \<and> state (store w'' ! b) = Question \<and> currentIndex (store w'' ! b) = 0)"
    by (elim conjE)
  from this[THEN spec, THEN spec, THEN spec, THEN spec, THEN spec, THEN spec, THEN mp, OF s,
      of 12000]
  have st: "\<exists>w'' out''. host_startGame host1 ''482913'' (Some [capital]) 12000 ?W
                        = Inr (w'', out'')
          \<and> state (store w'' ! 0) = Question \<and> currentIndex (store w'' ! 0) = 0" .
  from i0 i1 le nx st show ?thesis by (intro conjI)
qed

section \<open>C4: the score of an answer\<close>




section \<open>C5: acceptance of answers\<close>



section \<open>C6: stale timers\<close>

text \<open>
  C6, as stated, fails: the callback checks the state and the index when it runs, and
  \<open>host:startGame\<close> can bring a session back to state \<open>question\<close> at index \<open>0\<close>.
  In \<open>early_end\<close> the first start arms a timer for index \<open>0\<close> and the host ends the
  session while it is pending, so the session has left \<open>question\<close>. After a new start the
  session is in \<open>question\<close> at index \<open>0\<close> again, and the callback of the first timer
  reveals the restarted question.
\<close>

theorem stale_timeout_after_restart:
  "SetTimeout 0 (Fin 10050) \<in> set (effects_of (run init early_end))
   \<and> state (store (world_of (run init early_end)) ! 0) = Ended
   \<and> state (store (world_of (run init restart)) ! 0) = Question
   \<and> currentIndex (store (world_of (run init restart)) ! 0) = 0
   \<and> questionStart (store (world_of (run init restart)) ! 0) = Some 3000
   \<and> state (store (world_of (timeout 0 0 (world_of (run init restart)))) ! 0) = Reveal
   \<and> Emit (Room ''482913'') ''question:reveal''
        (RevealP 1 2 (Fin 0) [Fin 0, Fin 0, Fin 0, Fin 0]
          [\<lparr>eid = ''a'', ename = ''Sam'', escore = Fin 0, rank = Some 1\<rparr>])
       \<in> set (effects_of (timeout 0 0 (world_of (run init restart))))"
  by code_simp

text \<open>
  C6, amended: when a session is not in state \<open>question\<close>, or is at another index than
  the one a timer captured (an index it has reached), then after every run without a
  start the callback of that timer does nothing: the world is unchanged (no reveal, no
  scores added, no change of state) and nothing is emitted. With the empty run: a
  callback that finds its session out of \<open>question\<close> or at another index does nothing.
\<close>

theorem stale_timeout_no_effect:
  assumes "run w xs = Inr (w', out)" and "a < length (store w)"
    and "list_all (\<lambda>x. \<not> is_start x) xs"
    and "idx \<le> currentIndex (store w ! a)"
    and "state (store w ! a) \<noteq> Question \<or> currentIndex (store w ! a) \<noteq> idx"
  shows "timeout a idx w' = Inr (w', [])"
proof -
  let ?P = "\<lambda>g. idx \<le> currentIndex g \<and> (state g \<noteq> Question \<or> currentIndex g \<noteq> idx)"
  have "a < length (store w') \<and> ?P (store w' ! a)"
  proof (rule run_object_invariant[where P = ?P, OF assms(1,2)])
    show "?P (store w ! a)" using assms(4,5) by simp
  next
    fix x g g'
    assume "x \<in> set xs" and m: "moves x g g'" and p: "?P g"
    with assms(3) have "\<not> is_start x" by (auto simp: list_all_iff)
    from moves_left[OF m this] p show "?P g'" by blast
  qed
  then have "state (store w' ! a) \<noteq> Question \<or> currentIndex (store w' ! a) \<noteq> idx"
    by blast
  then show ?thesis by (rule timeout_guard)
qed

theorem stale_timeout_no_effect_witness:
  "state (store (world_of (run init two_questions)) ! 0) = Reveal
   \<and> state (store (world_of (run (world_of (run init two_questions)) moving_on)) ! 0) = Question
   \<and> currentIndex (store (world_of (run (world_of (run init two_questions)) moving_on)) ! 0) = 1
   \<and> timeout 0 0 (world_of (run (world_of (run init two_questions)) moving_on))
       = Inr (world_of (run (world_of (run init two_questions)) moving_on), [])"
proof -
  let ?W = "world_of (run init two_questions)"
  let ?W' = "world_of (run ?W moving_on)"
  have "succeeds (run ?W moving_on)"
    by code_simp
  then have r: "run ?W moving_on = Inr (?W', effects_of (run ?W moving_on))"
    by (rule succeeds_eq)
  have a: "0 < length (store ?W)"
    by code_simp
  have n: "list_all (\<lambda>x. \<not> is_start x) moving_on"
    by code_simp
  have i: "0 \<le> currentIndex (store ?W ! 0)"
    by simp
  have s: "state (store ?W ! 0) = Reveal"
    by code_simp
  then have l: "state (store ?W ! 0) \<noteq> Question \<or> currentIndex (store ?W ! 0) \<noteq> 0"
    by simp
  have s': "state (store ?W' ! 0) = Question" "currentIndex (store ?W' ! 0) = 1"
    by code_simp+
  from s s' stale_timeout_no_effect[OF r a n i l] show ?thesis by (intro conjI)
qed

section \<open>C7: malformed question lists\<close>




section \<open>C8: unique display names\<close>



section \<open>C9: the leaderboard\<close>

text \<open>
  C9: for a roster with finite scores, \<open>rankPlayers\<close> returns the entries of the roster (a
  permutation of them), by score descending, entries of equal score in the order of the
  roster, and the rank of each entry is its position counted from 1, so equal scores get
  consecutive ranks. \<open>endGame\<close> and \<open>revealAnswer\<close> compute this list anew: the first
  sends its first 20 entries, the second the first 10 entries for the scores just
  updated.
\<close>

theorem ranking_sorted_stable:
  assumes "finite_scores g"
  shows "mset (map unranked (rankPlayers g)) = mset (currentPlayersArray g)
       \<and> (\<forall>i j. i < j \<and> j < length (rankPlayers g) \<longrightarrow>
             fin_value (escore (rankPlayers g ! j)) \<le> fin_value (escore (rankPlayers g ! i)))
       \<and> (\<forall>s. filter (\<lambda>e. escore e = Fin s) (map unranked (rankPlayers g))
              = filter (\<lambda>e. escore e = Fin s) (currentPlayersArray g))
       \<and> map rank (rankPlayers g) = map Some [1..<Suc (length (players g))]
       \<and> snd (endGame g)
           = [Emit (Room (code g)) ''game:over'' (GameOverP (take 20 (rankPlayers g))),
              Emit (Sock (hostId g)) ''host:game:over'' (GameOverP (take 20 (rankPlayers g)))]
       \<and> (\<forall>g' out. revealAnswer g = Inr (g', out) \<longrightarrow>
             (\<exists>n t ci counts. hd out = Emit (Room (code g)) ''question:reveal''
                (RevealP n t ci counts (take 10 (rankPlayers g')))))"
proof -
  let ?A = "currentPlayersArray g"
  let ?U = "map unranked (rankPlayers g)"
  have fin: "\<forall>e \<in> set ?A. is_fin (escore e)"
    using assms by (rule currentPlayersArray_finite)
  have U: "?U = sort_key descending ?A"
    by (simp add: unranked_rankPlayers js_sort_sort_key[OF fin])
  have 1: "mset ?U = mset ?A"
    by (simp add: U)
  have sorted: "sorted (map descending ?U)"
    by (simp only: U sorted_sort_key)
  have 2: "fin_value (escore (rankPlayers g ! j)) \<le> fin_value (escore (rankPlayers g ! i))"
    if "i < j" "j < length (rankPlayers g)" for i j
  proof -
    from that have "map descending ?U ! i \<le> map descending ?U ! j"
      using sorted by (intro sorted_nth_mono) simp_all
    with that show ?thesis by (simp add: descending_def unranked_def)
  qed
  have 3: "filter (\<lambda>e. escore e = Fin s) ?U = filter (\<lambda>e. escore e = Fin s) ?A" for s
  proof -
    have "filter (\<lambda>e. descending e = - s) (sort_key descending ?A)
        = filter (\<lambda>e. descending e = - s) ?A"
      by (rule sort_key_stable)
    moreover have "filter (\<lambda>e. descending e = - s) xs = filter (\<lambda>e. escore e = Fin s) xs"
      if "\<forall>e \<in> set xs. is_fin (escore e)" for xs :: "entry list"
      using that
      by (intro filter_cong refl) (auto simp: descending_def fin_value_def elim!: is_finE)
    moreover have "\<forall>e \<in> set (sort_key descending ?A). is_fin (escore e)"
      using fin by simp
    ultimately show ?thesis using fin by (simp add: U)
  qed
  have 4: "map rank (rankPlayers g) = map Some [1..<Suc (length (players g))]"
    by (rule nth_equalityI) (simp_all add: length_rankPlayers rank_rankPlayers del: upt_Suc)
  have 5: "snd (endGame g)
           = [Emit (Room (code g)) ''game:over'' (GameOverP (take 20 (rankPlayers g))),
              Emit (Sock (hostId g)) ''host:game:over'' (GameOverP (take 20 (rankPlayers g)))]"
    by (simp add: endGame_def Let_def rankPlayers_state)
  have 6: "\<exists>n t ci counts. hd out = Emit (Room (code g)) ''question:reveal''
                (RevealP n t ci counts (take 10 (rankPlayers g')))"
    if "revealAnswer g = Inr (g', out)" for g' out
    using that by (auto simp: revealAnswer_def Let_def buildLeaderboard_def split: if_splits)
  from 1 2 3 4 5 6 show ?thesis by blast
qed


theorem ranking_sorted_stable_witness:
  "map rank (rankPlayers podium) = [Some 1, Some 2, Some 3]
   \<and> map escore (rankPlayers podium) = [Fin 300, Fin 300, Fin 100]
   \<and> map eid (rankPlayers podium) = [''a'', ''b'', ''c'']
   \<and> filter (\<lambda>e. escore e = Fin 300) (map unranked (rankPlayers podium))
       = filter (\<lambda>e. escore e = Fin 300) (currentPlayersArray podium)"
proof -
  have fs: "finite_scores podium"
    by code_simp
  note t = ranking_sorted_stable[OF fs]
  from t have "map rank (rankPlayers podium) = map Some [1..<Suc (length (players podium))]"
    by (elim conjE)
  moreover have "map Some [1..<Suc (length (players podium))] = [Some 1, Some 2, Some 3]"
    by code_simp
  ultimately have ranks: "map rank (rankPlayers podium) = [Some 1, Some 2, Some 3]"
    by simp
  from t have "\<forall>s. filter (\<lambda>e. escore e = Fin s) (map unranked (rankPlayers podium))
              = filter (\<lambda>e. escore e = Fin s) (currentPlayersArray podium)"
    by (elim conjE)
  then have stable: "filter (\<lambda>e. escore e = Fin 300) (map unranked (rankPlayers podium))
       = filter (\<lambda>e. escore e = Fin 300) (currentPlayersArray podium)"
    by (rule spec)
  have scores: "map escore (rankPlayers podium) = [Fin 300, Fin 300, Fin 100]"
    by code_simp
  have ids: "map eid (rankPlayers podium) = [''a'', ''b'', ''c'']"
    by code_simp
  from ranks scores ids stable show ?thesis by (intro conjI)
qed

section \<open>C10: recorded answer indices\<close>

text \<open>
  C10 at the submission \<open>index: 1.5\<close>: the answer is accepted and recorded with the index
  \<open>1.5\<close>, which lies between \<open>0\<close> and \<open>3\<close> but is no index of the four counts; at the
  reveal \<open>counts[1.5]++\<close> touches none of them, so the counts broadcast are all \<open>0\<close>
  although one answer was submitted.
\<close>

theorem fractional_answer_not_tallied:
  "answerIndex (snd (players (store (world_of (run init (one_question @
       [Answer alice ''482913'' (Fin (3 / 2)) 3000 3000]))) ! 0) ! 0)) = Some (Fin (3 / 2))
   \<and> array_index (Fin (3 / 2)) = None
   \<and> answersSubmitted (store (world_of (run init (one_question @
       [Answer alice ''482913'' (Fin (3 / 2)) 3000 3000]))) ! 0) = 1
   \<and> Emit (Room ''482913'') ''question:reveal''
        (RevealP 1 1 (Fin 0) [Fin 0, Fin 0, Fin 0, Fin 0]
          [\<lparr>eid = ''a'', ename = ''Sam'', escore = Fin 0, rank = Some 1\<rparr>,
           \<lparr>eid = ''b'', ename = ''Sam #2'', escore = Fin 0, rank = Some 2\<rparr>])
     \<in> set (effects_of (run init (one_question @
       [Answer alice ''482913'' (Fin (3 / 2)) 3000 3000, Timeout 0 0])))"
  by code_simp

end
